theory Spec2Isabelle
  imports Complex_Main "HOL-Library.Log_Nat"
begin

unbundle bit_operations_syntax

section \<open>The prisoners and the light: an embedding of main.cpp\<close>

text \<open>
  The program simulates the light-bulb riddle: a prison of \<open>n\<close> prisoners, one light, and
  every day one prisoner, drawn at random, who may switch the light and may claim that
  everyone has been in the room. This theory embeds the two prisoner classes and the
  prison's day loop. \<open>int32_t\<close> values are integers; every operation of the source that
  is undefined for some operands (signed overflow, division or modulo by zero, a shift
  out of range, a floating-point value with no \<open>int32_t\<close>) is a \<open>failure\<close> of the model.
\<close>

subsection \<open>Failures and checked 32-bit arithmetic\<close>

datatype failure =
    DivisionByZero
  | SignedOverflow
  | ShiftOutOfRange
  | FloatToIntOutOfRange
  | IndexOutOfRange
  | LengthError
  | DistributionRange

type_synonym 'a result = "failure + 'a"

definition and_then :: "'a result \<Rightarrow> ('a \<Rightarrow> 'b result) \<Rightarrow> 'b result" where
  "and_then m f = (case m of Inl e \<Rightarrow> Inl e | Inr x \<Rightarrow> f x)"

text \<open>The value of an \<open>int32_t\<close> expression: undefined outside the type's range.\<close>

definition int32 :: "int \<Rightarrow> int result" where
  "int32 x = (if - 2147483648 \<le> x \<and> x \<le> 2147483647 then Inr x else Inl SignedOverflow)"

text \<open>C++ \<open>/\<close> and \<open>%\<close> on \<open>int32_t\<close>: the quotient is truncated towards zero.\<close>

definition trunc_div :: "int \<Rightarrow> int \<Rightarrow> int" where
  "trunc_div a b = sgn a * sgn b * (\<bar>a\<bar> div \<bar>b\<bar>)"

definition int_div :: "int \<Rightarrow> int \<Rightarrow> int result" where
  "int_div a b = (if b = 0 then Inl DivisionByZero else int32 (trunc_div a b))"

definition int_mod :: "int \<Rightarrow> int \<Rightarrow> int result" where
  "int_mod a b =
     (if b = 0 then Inl DivisionByZero
      else and_then (int32 (trunc_div a b)) (\<lambda>q. Inr (a - b * q)))"

text \<open>
  \<open>1 << s\<close> on \<open>int32_t\<close>. A shift by 31 has no positive \<open>int32_t\<close> value and a shift
  by 32 or more, or by a negative count, is undefined; the model fails on all of them.
\<close>

definition shift_left_1 :: "int \<Rightarrow> int result" where
  "shift_left_1 s = (if 0 \<le> s \<and> s < 31 then Inr (2 ^ nat s) else Inl ShiftOutOfRange)"

subsection \<open>Light, PrisonerInput, PrisonerClaim, PrisonerBase\<close>

record Light =
  is_on :: bool

definition IsOn :: "Light \<Rightarrow> bool" where
  "IsOn l = is_on l"

definition IsOff :: "Light \<Rightarrow> bool" where
  "IsOff l = (\<not> IsOn l)"

definition TurnOn :: "Light \<Rightarrow> Light" where
  "TurnOn l = l\<lparr>is_on := True\<rparr>"

definition TurnOff :: "Light \<Rightarrow> Light" where
  "TurnOff l = l\<lparr>is_on := False\<rparr>"

text \<open>
  \<open>PrisonerInput\<close> holds a pointer to the prison's light. The model passes the light's
  value in and hands the light back with the result of every method that may switch it.
\<close>

record PrisonerInput =
  day_number :: int
  light :: Light

datatype PrisonerClaim = claim_nothing | claim_that_everyone_has_been_in_the_room

record PrisonerBase =
  prisoner_id :: int
  n_prisoners :: int

subsection \<open>DedicatedCounterPrisoner\<close>

record DedicatedCounterPrisoner = PrisonerBase +
  has_turned_on_the_light :: bool
  times_turned_off_the_light :: int

definition DedicatedCounterPrisoner_new :: "int \<Rightarrow> int \<Rightarrow> DedicatedCounterPrisoner result" where
  "DedicatedCounterPrisoner_new pid n =
     Inr \<lparr>prisoner_id = pid, n_prisoners = n,
          has_turned_on_the_light = False, times_turned_off_the_light = 0\<rparr>"

definition DedicatedCounterPrisoner_TakeAction ::
  "DedicatedCounterPrisoner \<Rightarrow> PrisonerInput \<Rightarrow>
     (PrisonerClaim \<times> DedicatedCounterPrisoner \<times> Light) result" where
  "DedicatedCounterPrisoner_TakeAction self input =
     (if prisoner_id self = 0 then
        and_then
          (if IsOn (light input) then
             and_then (int32 (times_turned_off_the_light self + 1))
               (\<lambda>t. Inr (self\<lparr>times_turned_off_the_light := t\<rparr>, TurnOff (light input)))
           else Inr (self, light input))
          (\<lambda>(self1, light1).
             and_then (int32 (n_prisoners self1 - 1))
               (\<lambda>m. if times_turned_off_the_light self1 = m
                    then Inr (claim_that_everyone_has_been_in_the_room, self1, light1)
                    else Inr (claim_nothing, self1, light1)))
      else
        (if \<not> has_turned_on_the_light self \<and> IsOff (light input)
         then Inr (claim_nothing, self\<lparr>has_turned_on_the_light := True\<rparr>, TurnOn (light input))
         else Inr (claim_nothing, self, light input)))"

subsection \<open>TokenPrisoner\<close>

record TokenPrisoner = PrisonerBase +
  n_tokens :: int

text \<open>
  \<open>std::ceil(log2(number))\<close> converted to \<open>int32_t\<close>. The model takes the logarithm and
  the ceiling over the reals (\<open>ceillog2 n\<close> is \<open>\<lceil>log 2 n\<rceil>\<close>), that is, it takes the
  floating-point \<open>log2\<close> to round no value across an integer. For \<open>number \<le> 0\<close> the
  logarithm is minus infinity or not a number, and the conversion is undefined.
\<close>

definition GetClosestNotSmallerPowerOf2 :: "int \<Rightarrow> int result" where
  "GetClosestNotSmallerPowerOf2 number =
     (if number \<le> 0 then Inl FloatToIntOutOfRange else Inr (int (ceillog2 (nat number))))"

definition TokenPrisoner_new :: "int \<Rightarrow> int \<Rightarrow> TokenPrisoner result" where
  "TokenPrisoner_new pid n =
     and_then (GetClosestNotSmallerPowerOf2 n) (\<lambda>k.
     and_then (shift_left_1 k) (\<lambda>p.
     and_then (int32 (p - n)) (\<lambda>n_prisoners_with_2_tokens.
       Inr \<lparr>prisoner_id = pid, n_prisoners = n,
            n_tokens = (if pid < n_prisoners_with_2_tokens then 2 else 1)\<rparr>)))"

text \<open>
  \<open>GetStageIndex\<close> and \<open>IsLastDayOfTheStage\<close> read one member of the object,
  \<open>n_prisoners\<close>; it is their first argument here.
\<close>

definition GetStageIndex :: "int \<Rightarrow> int \<Rightarrow> int result" where
  "GetStageIndex n day =
     and_then (int32 (n * 7)) (\<lambda>first_cycle_interval.
     and_then (int32 (n * 3)) (\<lambda>next_cycles_interval.
     and_then (GetClosestNotSmallerPowerOf2 n) (\<lambda>n_stages.
     and_then (int32 (n_stages * first_cycle_interval)) (\<lambda>first_cycle.
       if day < first_cycle then int_div day first_cycle_interval
       else
         and_then (int32 (day - first_cycle)) (\<lambda>tail.
         and_then (int_div tail next_cycles_interval) (\<lambda>q.
           int_mod q n_stages))))))"

definition IsLastDayOfTheStage :: "int \<Rightarrow> int \<Rightarrow> bool result" where
  "IsLastDayOfTheStage n day =
     and_then (GetStageIndex n day) (\<lambda>today.
     and_then (int32 (day + 1)) (\<lambda>next_day.
     and_then (GetStageIndex n next_day) (\<lambda>tomorrow.
       Inr (today \<noteq> tomorrow))))"

definition MaybeTurnOffLight ::
  "TokenPrisoner \<Rightarrow> PrisonerInput \<Rightarrow> (TokenPrisoner \<times> Light) result" where
  "MaybeTurnOffLight self input =
     (if IsOff (light input) then Inr (self, light input)
      else
        and_then (GetStageIndex (n_prisoners self) (day_number input)) (\<lambda>stage_index.
        and_then (shift_left_1 stage_index) (\<lambda>exchange_rate.
        let have_matching_bit = (n_tokens self AND exchange_rate \<noteq> 0) in
        and_then (IsLastDayOfTheStage (n_prisoners self) (day_number input)) (\<lambda>last_day.
          if last_day \<or> have_matching_bit then
            and_then (int32 (n_tokens self + exchange_rate)) (\<lambda>t.
              Inr (self\<lparr>n_tokens := t\<rparr>, TurnOff (light input)))
          else Inr (self, light input)))))"

definition MaybeTurnOnLight ::
  "TokenPrisoner \<Rightarrow> PrisonerInput \<Rightarrow> (TokenPrisoner \<times> Light) result" where
  "MaybeTurnOnLight self input =
     (if IsOn (light input) then Inr (self, light input)
      else
        and_then (int32 (day_number input + 1)) (\<lambda>next_day.
        and_then (GetStageIndex (n_prisoners self) next_day) (\<lambda>next_day_stage_index.
        and_then (shift_left_1 next_day_stage_index) (\<lambda>next_day_exchange_rate.
        let have_matching_bit = n_tokens self AND next_day_exchange_rate in
          if have_matching_bit \<noteq> 0 then
            and_then (int32 (n_tokens self - next_day_exchange_rate)) (\<lambda>t.
              Inr (self\<lparr>n_tokens := t\<rparr>, TurnOn (light input)))
          else Inr (self, light input)))))"

definition ShouldClaimThatEveryoneHasBeenInTheRoom :: "TokenPrisoner \<Rightarrow> bool result" where
  "ShouldClaimThatEveryoneHasBeenInTheRoom self =
     and_then (GetClosestNotSmallerPowerOf2 (n_prisoners self)) (\<lambda>k.
     and_then (shift_left_1 k) (\<lambda>p. Inr (n_tokens self = p)))"

definition TokenPrisoner_TakeAction ::
  "TokenPrisoner \<Rightarrow> PrisonerInput \<Rightarrow> (PrisonerClaim \<times> TokenPrisoner \<times> Light) result" where
  "TokenPrisoner_TakeAction self input =
     and_then (MaybeTurnOffLight self input) (\<lambda>(self1, light1).
     and_then (MaybeTurnOnLight self1 (input\<lparr>light := light1\<rparr>)) (\<lambda>(self2, light2).
     and_then (ShouldClaimThatEveryoneHasBeenInTheRoom self2) (\<lambda>claim.
       if claim then Inr (claim_that_everyone_has_been_in_the_room, self2, light2)
       else Inr (claim_nothing, self2, light2))))"

subsection \<open>Prison\<close>

text \<open>
  The class template \<open>Prison<Prisoner>\<close>: the prisoner type is a type variable, and the
  prisoner's constructor and \<open>TakeAction\<close> are arguments. The random generator is outside
  the model: the prisoner drawn each day is an argument of \<open>NextDay\<close>, and \<open>Run\<close> reads
  the draws from a list.
\<close>

record 'p Prison =
  prison_n_prisoners :: int
  prison_day_number :: int
  prison_light :: Light
  prisoners :: "'p list"
  prisoners_have_been_in_the_room_indicators :: "bool list"

primrec emplace_all :: "'p result list \<Rightarrow> 'p list result" where
  "emplace_all [] = Inr []"
| "emplace_all (r # rs) =
     and_then r (\<lambda>p. and_then (emplace_all rs) (\<lambda>ps. Inr (p # ps)))"

text \<open>
  The vector of indicators is built with \<open>n\<close> elements (a negative \<open>n\<close> is no length),
  the distribution over \<open>[0, n - 1]\<close> needs \<open>0 \<le> n - 1\<close>, and the constructor's loop
  builds the prisoners \<open>0, \<dots>, n - 1\<close> in order.
\<close>

definition Prison_new :: "(int \<Rightarrow> int \<Rightarrow> 'p result) \<Rightarrow> int \<Rightarrow> 'p Prison result" where
  "Prison_new new n =
     (if n < 0 then Inl LengthError
      else if n = 0 then Inl DistributionRange
      else
        and_then (emplace_all (map (\<lambda>i. new (int i) n) [0..<nat n])) (\<lambda>ps.
          Inr \<lparr>prison_n_prisoners = n, prison_day_number = 0,
               prison_light = \<lparr>is_on = False\<rparr>, prisoners = ps,
               prisoners_have_been_in_the_room_indicators = replicate (nat n) False\<rparr>))"

definition HaveAllPrisonersBeenInTheRoom :: "'p Prison \<Rightarrow> bool" where
  "HaveAllPrisonersBeenInTheRoom prison =
     list_all (\<lambda>x. x) (prisoners_have_been_in_the_room_indicators prison)"

text \<open>
  \<open>NextDay\<close> with the drawn prisoner given. The distribution draws from
  \<open>[0, n_prisoners - 1]\<close> only; an index outside the vectors is a failure of the model.
\<close>

definition NextDay ::
  "('p \<Rightarrow> PrisonerInput \<Rightarrow> (PrisonerClaim \<times> 'p \<times> Light) result) \<Rightarrow> nat \<Rightarrow> 'p Prison \<Rightarrow>
     (PrisonerClaim \<times> 'p Prison) result" where
  "NextDay take_action drawn prison =
     (if length (prisoners prison) \<le> drawn
         \<or> length (prisoners_have_been_in_the_room_indicators prison) \<le> drawn
      then Inl IndexOutOfRange
      else
        let prison1 = prison\<lparr>prisoners_have_been_in_the_room_indicators :=
              (prisoners_have_been_in_the_room_indicators prison)[drawn := True]\<rparr> in
        and_then
          (take_action (prisoners prison1 ! drawn)
             \<lparr>day_number = prison_day_number prison1, light = prison_light prison1\<rparr>)
          (\<lambda>(prisoner_claim, prisoner, light1).
             let prison2 = prison1\<lparr>prisoners := (prisoners prison1)[drawn := prisoner],
                                   prison_light := light1\<rparr> in
             and_then (int32 (prison_day_number prison2 + 1)) (\<lambda>d.
               Inr (prisoner_claim, prison2\<lparr>prison_day_number := d\<rparr>))))"

text \<open>
  \<open>Run\<close> ends in one of three ways: it returns the day number, it throws
  \<open>FalsePrisonerClaimException\<close>, or a step of it is undefined. The loop has no bound:
  \<open>None\<close> is a run that has used all the draws given and is still looping.
\<close>

datatype outcome = Returned int | FalsePrisonerClaimException | Undefined failure

fun Run ::
  "('p \<Rightarrow> PrisonerInput \<Rightarrow> (PrisonerClaim \<times> 'p \<times> Light) result) \<Rightarrow> nat list \<Rightarrow> 'p Prison \<Rightarrow>
     outcome option" where
  "Run take_action [] prison = None"
| "Run take_action (drawn # draws) prison =
     (case NextDay take_action drawn prison of
        Inl e \<Rightarrow> Some (Undefined e)
      | Inr (prisoner_claim, prison1) \<Rightarrow>
          if prisoner_claim = claim_that_everyone_has_been_in_the_room then
            (if HaveAllPrisonersBeenInTheRoom prison1
             then Some (Returned (prison_day_number prison1))
             else Some FalsePrisonerClaimException)
          else Run take_action draws prison1)"

text \<open>
  The prisons a run goes through: the prison before each visit and the prison after the
  last one. The run stops at the first claim and at the first failure, as \<open>Run\<close> does.
\<close>

fun states ::
  "('p \<Rightarrow> PrisonerInput \<Rightarrow> (PrisonerClaim \<times> 'p \<times> Light) result) \<Rightarrow> nat list \<Rightarrow> 'p Prison \<Rightarrow>
     'p Prison list" where
  "states take_action [] prison = [prison]"
| "states take_action (drawn # draws) prison =
     prison #
     (case NextDay take_action drawn prison of
        Inl e \<Rightarrow> []
      | Inr (prisoner_claim, prison1) \<Rightarrow>
          if prisoner_claim = claim_that_everyone_has_been_in_the_room then [prison1]
          else states take_action draws prison1)"

subsection \<open>Quantities of a run\<close>

definition tokens_in_prison :: "TokenPrisoner Prison \<Rightarrow> int" where
  "tokens_in_prison prison = sum_list (map n_tokens (prisoners prison))"

text \<open>
  The weight of the token that lies on the light on a day: \<open>1 << GetStageIndex(day)\<close>,
  the exchange rate at which \<open>MaybeTurnOffLight\<close> would take it that day, when the light
  is on, and nothing when it is off.
\<close>

definition token_on_light :: "int \<Rightarrow> int \<Rightarrow> Light \<Rightarrow> int result" where
  "token_on_light n day l =
     (if IsOn l then and_then (GetStageIndex n day) shift_left_1 else Inr 0)"

text \<open>The prison after a list of visits, none of which made the claim or failed.\<close>

fun quiet_days ::
  "('p \<Rightarrow> PrisonerInput \<Rightarrow> (PrisonerClaim \<times> 'p \<times> Light) result) \<Rightarrow> nat list \<Rightarrow> 'p Prison \<Rightarrow>
     'p Prison option" where
  "quiet_days take_action [] prison = Some prison"
| "quiet_days take_action (drawn # draws) prison =
     (case NextDay take_action drawn prison of
        Inl e \<Rightarrow> None
      | Inr (prisoner_claim, prison1) \<Rightarrow>
          if prisoner_claim = claim_nothing then quiet_days take_action draws prison1
          else None)"

text \<open>How many times a sequence of flags goes from false to true.\<close>

fun rises :: "bool list \<Rightarrow> nat" where
  "rises (a # b # bs) = (if \<not> a \<and> b then 1 else 0) + rises (b # bs)"
| "rises bs = 0"

subsection \<open>The token protocol in the words of the specification\<close>

text \<open>
  These definitions follow the specification's text, not the source: \<open>k\<close> is
  \<open>\<lceil>log 2 N\<rceil>\<close>, the stage schedule is the two-branch formula, and the visit acts on the
  pair of the agent's tokens and the signal. They are compared with the source's
  functions below.
\<close>

definition spec_k :: "int \<Rightarrow> int" where
  "spec_k N = int (ceillog2 (nat N))"

definition spec_stage :: "int \<Rightarrow> int \<Rightarrow> int" where
  "spec_stage N day =
     (if day < spec_k N * 7 * N then day div (7 * N)
      else ((day - spec_k N * 7 * N) div (3 * N)) mod spec_k N)"

definition spec_last_day_of_stage :: "int \<Rightarrow> int \<Rightarrow> bool" where
  "spec_last_day_of_stage N day = (spec_stage N day \<noteq> spec_stage N (day + 1))"

definition spec_maybe_turn_off :: "int \<Rightarrow> int \<Rightarrow> int \<times> bool \<Rightarrow> int \<times> bool" where
  "spec_maybe_turn_off N day ts =
     (case ts of (tokens, signal) \<Rightarrow>
        if signal then
          (let rate = 2 ^ nat (spec_stage N day) in
           if tokens AND rate \<noteq> 0 \<or> spec_last_day_of_stage N day
           then (tokens + rate, False) else (tokens, signal))
        else (tokens, signal))"

definition spec_maybe_turn_on :: "int \<Rightarrow> int \<Rightarrow> int \<times> bool \<Rightarrow> int \<times> bool" where
  "spec_maybe_turn_on N day ts =
     (case ts of (tokens, signal) \<Rightarrow>
        if \<not> signal then
          (let next_rate = 2 ^ nat (spec_stage N (day + 1)) in
           if tokens AND next_rate \<noteq> 0
           then (tokens - next_rate, True) else (tokens, signal))
        else (tokens, signal))"

definition spec_take_action :: "int \<Rightarrow> int \<Rightarrow> int \<times> bool \<Rightarrow> PrisonerClaim \<times> int \<times> bool" where
  "spec_take_action N day ts =
     (case spec_maybe_turn_on N day (spec_maybe_turn_off N day ts) of (tokens, signal) \<Rightarrow>
        (if tokens = 2 ^ nat (spec_k N) then claim_that_everyone_has_been_in_the_room
         else claim_nothing,
         tokens, signal))"

subsection \<open>Example prisons\<close>

text \<open>The prisons that \<open>Prison_new\<close> builds for two and for three prisoners.\<close>

definition two_counters :: "DedicatedCounterPrisoner Prison" where
  "two_counters =
     \<lparr>prison_n_prisoners = 2, prison_day_number = 0, prison_light = \<lparr>is_on = False\<rparr>,
      prisoners =
        [\<lparr>prisoner_id = 0, n_prisoners = 2, has_turned_on_the_light = False,
          times_turned_off_the_light = 0\<rparr>,
         \<lparr>prisoner_id = 1, n_prisoners = 2, has_turned_on_the_light = False,
          times_turned_off_the_light = 0\<rparr>],
      prisoners_have_been_in_the_room_indicators = [False, False]\<rparr>"

definition two_tokens :: "TokenPrisoner Prison" where
  "two_tokens =
     \<lparr>prison_n_prisoners = 2, prison_day_number = 0, prison_light = \<lparr>is_on = False\<rparr>,
      prisoners =
        [\<lparr>prisoner_id = 0, n_prisoners = 2, n_tokens = 1\<rparr>,
         \<lparr>prisoner_id = 1, n_prisoners = 2, n_tokens = 1\<rparr>],
      prisoners_have_been_in_the_room_indicators = [False, False]\<rparr>"

definition three_tokens :: "TokenPrisoner Prison" where
  "three_tokens =
     \<lparr>prison_n_prisoners = 3, prison_day_number = 0, prison_light = \<lparr>is_on = False\<rparr>,
      prisoners =
        [\<lparr>prisoner_id = 0, n_prisoners = 3, n_tokens = 2\<rparr>,
         \<lparr>prisoner_id = 1, n_prisoners = 3, n_tokens = 1\<rparr>,
         \<lparr>prisoner_id = 2, n_prisoners = 3, n_tokens = 1\<rparr>],
      prisoners_have_been_in_the_room_indicators = [False, False, False]\<rparr>"

text \<open>The prison \<open>two_counters\<close> after a visit of prisoner 1, and after a visit of the leader then.\<close>

definition two_counters_day1 :: "DedicatedCounterPrisoner Prison" where
  "two_counters_day1 =
     \<lparr>prison_n_prisoners = 2, prison_day_number = 1, prison_light = \<lparr>is_on = True\<rparr>,
      prisoners =
        [\<lparr>prisoner_id = 0, n_prisoners = 2, has_turned_on_the_light = False,
          times_turned_off_the_light = 0\<rparr>,
         \<lparr>prisoner_id = 1, n_prisoners = 2, has_turned_on_the_light = True,
          times_turned_off_the_light = 0\<rparr>],
      prisoners_have_been_in_the_room_indicators = [False, True]\<rparr>"

definition two_counters_day2 :: "DedicatedCounterPrisoner Prison" where
  "two_counters_day2 =
     \<lparr>prison_n_prisoners = 2, prison_day_number = 2, prison_light = \<lparr>is_on = False\<rparr>,
      prisoners =
        [\<lparr>prisoner_id = 0, n_prisoners = 2, has_turned_on_the_light = False,
          times_turned_off_the_light = 1\<rparr>,
         \<lparr>prisoner_id = 1, n_prisoners = 2, has_turned_on_the_light = True,
          times_turned_off_the_light = 0\<rparr>],
      prisoners_have_been_in_the_room_indicators = [True, True]\<rparr>"

text \<open>The prison \<open>two_tokens\<close> after a visit of prisoner 0.\<close>

definition two_tokens_day1 :: "TokenPrisoner Prison" where
  "two_tokens_day1 =
     \<lparr>prison_n_prisoners = 2, prison_day_number = 1, prison_light = \<lparr>is_on = True\<rparr>,
      prisoners =
        [\<lparr>prisoner_id = 0, n_prisoners = 2, n_tokens = 0\<rparr>,
         \<lparr>prisoner_id = 1, n_prisoners = 2, n_tokens = 1\<rparr>],
      prisoners_have_been_in_the_room_indicators = [True, False]\<rparr>"

text \<open>
  A prison that no constructor builds: two dedicated-counter prisoners, nobody has been
  in the room, and the leader's count is already 1.
\<close>

definition miscounted_counters :: "DedicatedCounterPrisoner Prison" where
  "miscounted_counters =
     \<lparr>prison_n_prisoners = 2, prison_day_number = 0, prison_light = \<lparr>is_on = False\<rparr>,
      prisoners =
        [\<lparr>prisoner_id = 0, n_prisoners = 2, has_turned_on_the_light = False,
          times_turned_off_the_light = 1\<rparr>,
         \<lparr>prisoner_id = 1, n_prisoners = 2, has_turned_on_the_light = False,
          times_turned_off_the_light = 0\<rparr>],
      prisoners_have_been_in_the_room_indicators = [False, False]\<rparr>"

text \<open>The prison \<open>miscounted_counters\<close> after a visit of the leader.\<close>

definition miscounted_counters_day1 :: "DedicatedCounterPrisoner Prison" where
  "miscounted_counters_day1 =
     \<lparr>prison_n_prisoners = 2, prison_day_number = 1, prison_light = \<lparr>is_on = False\<rparr>,
      prisoners =
        [\<lparr>prisoner_id = 0, n_prisoners = 2, has_turned_on_the_light = False,
          times_turned_off_the_light = 1\<rparr>,
         \<lparr>prisoner_id = 1, n_prisoners = 2, has_turned_on_the_light = False,
          times_turned_off_the_light = 0\<rparr>],
      prisoners_have_been_in_the_room_indicators = [True, False]\<rparr>"

section \<open>Checked arithmetic\<close>

lemma and_then_Inr [simp]: "and_then (Inr x) f = f x"
  by (simp add: and_then_def)

lemma and_then_Inl [simp]: "and_then (Inl e) f = Inl e"
  by (simp add: and_then_def)

lemma and_then_eq_Inr:
  "and_then m f = Inr y \<longleftrightarrow> (\<exists>x. m = Inr x \<and> f x = Inr y)"
  by (cases m) simp_all

lemma int32_Inr: "- 2147483648 \<le> x \<Longrightarrow> x \<le> 2147483647 \<Longrightarrow> int32 x = Inr x"
  by (simp add: int32_def)

lemma int32_eq_Inr: "int32 x = Inr y \<longleftrightarrow> y = x \<and> - 2147483648 \<le> x \<and> x \<le> 2147483647"
  by (auto simp: int32_def)

lemma trunc_div_nonneg: "0 \<le> a \<Longrightarrow> 0 < b \<Longrightarrow> trunc_div a b = a div b"
  by (cases "a = 0") (simp_all add: trunc_div_def)

lemma div_le_nonneg: "0 \<le> a \<Longrightarrow> 0 < b \<Longrightarrow> a div b \<le> (a::int)"
  by (cases "a = 0") (simp_all add: int_div_le_self)

lemma int_div_nonneg:
  assumes "0 \<le> a" "a \<le> 2147483647" "0 < b"
  shows "int_div a b = Inr (a div b)"
proof -
  have "0 \<le> a div b" using assms by (simp add: pos_imp_zdiv_nonneg_iff)
  moreover have "a div b \<le> a" using assms by (rule_tac div_le_nonneg) simp_all
  ultimately show ?thesis
    using assms by (simp add: int_div_def trunc_div_nonneg int32_Inr)
qed

lemma int_mod_nonneg:
  assumes "0 \<le> a" "a \<le> 2147483647" "0 < b"
  shows "int_mod a b = Inr (a mod b)"
proof -
  have "0 \<le> a div b" using assms by (simp add: pos_imp_zdiv_nonneg_iff)
  moreover have "a div b \<le> a" using assms by (rule_tac div_le_nonneg) simp_all
  ultimately show ?thesis
    using assms by (simp add: int_mod_def trunc_div_nonneg int32_Inr minus_mult_div_eq_mod)
qed

section \<open>The stage schedule\<close>

lemma ceillog2_pos: "2 \<le> n \<Longrightarrow> 1 \<le> ceillog2 n"
  using ceillog2_ge_iff [of n 1] by simp

lemma ceillog2_3: "ceillog2 3 = 2"
  by (rule ceillog2_eqI) simp_all

lemma GetClosest_pos: "1 \<le> N \<Longrightarrow> GetClosestNotSmallerPowerOf2 N = Inr (int (ceillog2 (nat N)))"
  by (simp add: GetClosestNotSmallerPowerOf2_def)

lemma GetStageIndex_value:
  assumes N: "2 \<le> N" and day: "0 \<le> day" "day \<le> 2147483647"
    and bound: "int (ceillog2 (nat N)) * (7 * N) \<le> 2147483647"
  shows "GetStageIndex N day =
    Inr (if day < int (ceillog2 (nat N)) * 7 * N then day div (7 * N)
         else ((day - int (ceillog2 (nat N)) * 7 * N) div (3 * N)) mod int (ceillog2 (nat N)))"
proof -
  define k where "k = int (ceillog2 (nat N))"
  define c where "c = k * (N * 7)"
  have k: "1 \<le> k" using N ceillog2_pos [of "nat N"] by (simp add: k_def)
  have c_le: "c \<le> 2147483647" using bound by (simp add: c_def k_def mult.commute)
  have "1 * (N * 7) \<le> k * (N * 7)" using k N by (intro mult_right_mono) simp_all
  then have N7_c: "N * 7 \<le> c" by (simp only: mult_1 c_def)
  have N7: "N * 7 \<le> 2147483647" using N7_c c_le by (rule order_trans)
  have c_ge: "0 \<le> c" using N7_c N by linarith
  have first: "int32 (N * 7) = Inr (N * 7)" using N N7 by (intro int32_Inr) linarith+
  have next1: "int32 (N * 3) = Inr (N * 3)" using N N7 by (intro int32_Inr) linarith+
  have cyc: "int32 c = Inr c" using c_le c_ge by (intro int32_Inr) linarith+
  have unfold: "GetStageIndex N day =
      (if day < c then int_div day (N * 7)
       else and_then (int32 (day - c)) (\<lambda>tail.
            and_then (int_div tail (N * 3)) (\<lambda>q. int_mod q k)))"
    using N first next1 cyc
    by (simp add: GetStageIndex_def GetClosest_pos k_def [symmetric] c_def [symmetric])
  have shape: "int (ceillog2 (nat N)) * 7 * N = c" "7 * N = N * 7" "3 * N = N * 3"
    by (simp_all add: c_def k_def mult.commute mult.left_commute)
  show ?thesis
  proof (cases "day < c")
    case True
    then show ?thesis
      using N day int_div_nonneg [of day "N * 7"] by (simp add: unfold shape)
  next
    case False
    define tail where "tail = day - c"
    have tail: "0 \<le> tail" "tail \<le> 2147483647"
      using False day c_ge unfolding tail_def by linarith+
    have q: "0 \<le> tail div (N * 3)" "tail div (N * 3) \<le> 2147483647"
      using tail N div_le_nonneg [of tail "N * 3"] by (simp_all add: pos_imp_zdiv_nonneg_iff)
    have "int32 (day - c) = Inr tail"
      using tail unfolding tail_def by (intro int32_Inr) linarith+
    moreover have "int_div tail (N * 3) = Inr (tail div (N * 3))"
      using tail N by (simp add: int_div_nonneg)
    moreover have "int_mod (tail div (N * 3)) k = Inr (tail div (N * 3) mod k)"
      using q k by (simp add: int_mod_nonneg)
    ultimately show ?thesis
      using False by (simp add: unfold shape tail_def k_def)
  qed
qed

lemma IsLastDayOfTheStage_value:
  assumes "GetStageIndex N day = Inr today" "day < 2147483647" "- 2147483648 \<le> day"
    and "GetStageIndex N (day + 1) = Inr tomorrow"
  shows "IsLastDayOfTheStage N day = Inr (today \<noteq> tomorrow)"
  using assms by (simp add: IsLastDayOfTheStage_def int32_Inr)

text \<open>
  C7. With \<open>k = \<lceil>log 2 N\<rceil>\<close> stages, \<open>k \<ge> 1\<close> (that is \<open>N \<ge> 2\<close>), and numbers small enough
  for \<open>int32_t\<close>, the stage index depends on the day number and \<open>N\<close> only: it is
  \<open>day / (7 N)\<close> while \<open>day < k 7 N\<close> and \<open>((day - k 7 N) / (3 N)) mod k\<close> from then on.
  A day is the last day of its stage exactly when the next day's stage index differs.
\<close>

theorem stage_schedule:
  assumes "2 \<le> N" and "0 \<le> day" and "day < 2147483647"
    and "k = int (ceillog2 (nat N))" and "k * (7 * N) \<le> 2147483647"
  shows "GetClosestNotSmallerPowerOf2 N = Inr k
    \<and> GetStageIndex N day =
        Inr (if day < k * 7 * N then day div (7 * N) else ((day - k * 7 * N) div (3 * N)) mod k)
    \<and> (\<exists>today tomorrow. GetStageIndex N day = Inr today
          \<and> GetStageIndex N (day + 1) = Inr tomorrow
          \<and> IsLastDayOfTheStage N day = Inr (today \<noteq> tomorrow))"
proof -
  have bound: "int (ceillog2 (nat N)) * (7 * N) \<le> 2147483647"
    using assms(4,5) by simp
  have today: "GetStageIndex N day =
      Inr (if day < k * 7 * N then day div (7 * N) else ((day - k * 7 * N) div (3 * N)) mod k)"
    using assms(1-3) bound GetStageIndex_value [of N day] by (simp add: assms(4))
  obtain tomorrow where tomorrow: "GetStageIndex N (day + 1) = Inr tomorrow"
    using assms(1-3) bound GetStageIndex_value [of N "day + 1"] by simp
  have last: "IsLastDayOfTheStage N day =
      Inr ((if day < k * 7 * N then day div (7 * N)
            else ((day - k * 7 * N) div (3 * N)) mod k) \<noteq> tomorrow)"
    using today tomorrow assms(2,3) by (intro IsLastDayOfTheStage_value) simp_all
  have "GetClosestNotSmallerPowerOf2 N = Inr k"
    using assms(1,4) by (simp add: GetClosest_pos)
  then show ?thesis
    using today tomorrow last by blast
qed

theorem stage_schedule_witness:
  "(2::int) \<le> 3 \<and> (0::int) \<le> 50 \<and> (50::int) < 2147483647
    \<and> (2::int) = int (ceillog2 (nat 3)) \<and> (2::int) * (7 * 3) \<le> 2147483647
    \<and> GetClosestNotSmallerPowerOf2 3 = Inr 2
    \<and> GetStageIndex 3 50 = Inr 0
    \<and> GetStageIndex 3 (50 + 1) = Inr 1
    \<and> IsLastDayOfTheStage 3 50 = Inr True"
proof -
  have k: "(2::int) = int (ceillog2 (nat 3))"
    by (simp add: ceillog2_3)
  have s: "GetStageIndex 3 50 = Inr 0"
    using stage_schedule [of 3 50 2, OF _ _ _ k] by simp
  have s1: "GetStageIndex 3 (50 + 1) = Inr 1"
    using stage_schedule [of 3 51 2, OF _ _ _ k] by simp
  have "IsLastDayOfTheStage 3 50 = Inr True"
    using stage_schedule [of 3 50 2, OF _ _ _ k] s s1 by auto
  moreover have "GetClosestNotSmallerPowerOf2 3 = Inr 2"
    using stage_schedule [of 3 50 2, OF _ _ _ k] by simp
  ultimately show ?thesis using k s s1 by simp
qed

text \<open>
  C3. The claim: for every \<open>N \<ge> 1\<close> every division and modulo of \<open>GetStageIndex\<close> has
  a nonzero divisor. With one prisoner there are \<open>\<lceil>log 2 1\<rceil> = 0\<close> stages, the first cycle
  is empty, and the stage of day 1 (asked for on day 0) is a remainder modulo 0.
\<close>

theorem GetStageIndex_one_prisoner:
  "GetClosestNotSmallerPowerOf2 1 = Inr 0 \<and> GetStageIndex 1 1 = Inl DivisionByZero"
  by (simp add: GetStageIndex_def int32_def GetClosestNotSmallerPowerOf2_def
      int_div_def int_mod_def trunc_div_def)

text \<open>
  C4. The claim: with one prisoner, the prisoner is built with one token and claims on
  the first visit, so that \<open>Run\<close> succeeds. The prisoner is built with one token, but
  the first visit asks for the stage of day 1 before it compares the tokens, and the
  run ends there, undefined.
\<close>

theorem TokenPrisoner_one_prisoner:
  "TokenPrisoner_new 0 1 = Inr \<lparr>prisoner_id = 0, n_prisoners = 1, n_tokens = 1\<rparr>
    \<and> TokenPrisoner_TakeAction \<lparr>prisoner_id = 0, n_prisoners = 1, n_tokens = 1\<rparr>
         \<lparr>day_number = 0, light = \<lparr>is_on = False\<rparr>\<rparr> = Inl DivisionByZero
    \<and> Prison_new TokenPrisoner_new 1 =
         Inr \<lparr>prison_n_prisoners = 1, prison_day_number = 0, prison_light = \<lparr>is_on = False\<rparr>,
              prisoners = [\<lparr>prisoner_id = 0, n_prisoners = 1, n_tokens = 1\<rparr>],
              prisoners_have_been_in_the_room_indicators = [False]\<rparr>
    \<and> Run TokenPrisoner_TakeAction [0]
         \<lparr>prison_n_prisoners = 1, prison_day_number = 0, prison_light = \<lparr>is_on = False\<rparr>,
          prisoners = [\<lparr>prisoner_id = 0, n_prisoners = 1, n_tokens = 1\<rparr>],
          prisoners_have_been_in_the_room_indicators = [False]\<rparr>
        = Some (Undefined DivisionByZero)"
  by code_simp

section \<open>The visit of a token prisoner\<close>

lemma GetStageIndex_spec:
  assumes "2 \<le> N" "0 \<le> day" "day \<le> 2147483647" "spec_k N * (7 * N) \<le> 2147483647"
  shows "GetStageIndex N day = Inr (spec_stage N day)"
  using assms GetStageIndex_value [of N day] by (simp add: spec_stage_def spec_k_def)

lemma div_less_of_less_mult:
  assumes "0 < b" "a < k * b"
  shows "a div b < (k::int)"
proof (rule ccontr)
  assume "\<not> a div b < k"
  then have "k * b \<le> (a div b) * b" using assms(1) by (intro mult_right_mono) simp_all
  also have "\<dots> \<le> a" using assms(1) div_mult_mod_eq [of a b] pos_mod_sign [of b a] by linarith
  finally show False using assms(2) by simp
qed

lemma spec_stage_range:
  assumes "2 \<le> N" "0 \<le> day"
  shows "0 \<le> spec_stage N day \<and> spec_stage N day < spec_k N"
proof -
  have k: "1 \<le> spec_k N" using assms(1) ceillog2_pos [of "nat N"] by (simp add: spec_k_def)
  show ?thesis
  proof (cases "day < spec_k N * 7 * N")
    case True
    then have "day < spec_k N * (7 * N)" by (simp add: mult.assoc)
    then have "day div (7 * N) < spec_k N"
      using assms(1) by (intro div_less_of_less_mult) simp_all
    moreover have "0 \<le> day div (7 * N)"
      using assms by (simp add: pos_imp_zdiv_nonneg_iff)
    ultimately show ?thesis using True by (simp add: spec_stage_def)
  next
    case False
    then show ?thesis using k by (simp add: spec_stage_def)
  qed
qed

lemma spec_k_le_29:
  assumes "2 \<le> N" "spec_k N * (7 * N) \<le> 2147483647"
  shows "spec_k N \<le> 29"
proof -
  have k: "1 \<le> spec_k N" using assms(1) ceillog2_pos [of "nat N"] by (simp add: spec_k_def)
  have "1 * (7 * N) \<le> spec_k N * (7 * N)" using k assms(1) by (intro mult_right_mono) simp_all
  then have "7 * N \<le> 2147483647" using assms(2) by linarith
  then have "N \<le> 2 ^ 29" by simp
  then have "nat N \<le> 2 ^ 29" using assms(1) by (simp add: nat_le_iff)
  then have "ceillog2 (nat N) \<le> 29" using assms(1) by (subst ceillog2_le_iff) simp_all
  then show ?thesis by (simp add: spec_k_def)
qed

lemma rate_value:
  assumes "0 \<le> s" "s < k" "k \<le> 29"
  shows "shift_left_1 s = Inr (2 ^ nat s) \<and> (2::int) ^ nat s \<le> 268435456"
proof -
  have "nat s \<le> 28" using assms by simp
  then have "(2::int) ^ nat s \<le> 2 ^ 28" by (intro power_increasing) simp_all
  then show ?thesis using assms by (simp add: shift_left_1_def)
qed

lemma MaybeTurnOffLight_spec:
  assumes N: "2 \<le> n_prisoners self"
    and bound: "spec_k (n_prisoners self) * (7 * n_prisoners self) \<le> 2147483647"
    and day: "0 \<le> day_number input" "day_number input < 2147483647"
    and tokens: "- 1073741824 \<le> n_tokens self" "n_tokens self \<le> 1073741824"
  shows "MaybeTurnOffLight self input =
    Inr (case spec_maybe_turn_off (n_prisoners self) (day_number input)
               (n_tokens self, is_on (light input)) of
           (tokens, signal) \<Rightarrow> (self\<lparr>n_tokens := tokens\<rparr>, (light input)\<lparr>is_on := signal\<rparr>))"
proof (cases "is_on (light input)")
  case False
  then show ?thesis
    by (simp add: MaybeTurnOffLight_def spec_maybe_turn_off_def IsOff_def IsOn_def)
next
  case True
  define st where "st = spec_stage (n_prisoners self) (day_number input)"
  have today: "GetStageIndex (n_prisoners self) (day_number input) = Inr st"
    using N bound day unfolding st_def by (intro GetStageIndex_spec) simp_all
  have tomorrow: "GetStageIndex (n_prisoners self) (day_number input + 1)
      = Inr (spec_stage (n_prisoners self) (day_number input + 1))"
    using N bound day by (intro GetStageIndex_spec) simp_all
  have last: "IsLastDayOfTheStage (n_prisoners self) (day_number input)
      = Inr (spec_last_day_of_stage (n_prisoners self) (day_number input))"
    using today tomorrow day unfolding spec_last_day_of_stage_def st_def
    by (intro IsLastDayOfTheStage_value) simp_all
  have range: "0 \<le> st \<and> st < spec_k (n_prisoners self)"
    using N day unfolding st_def by (intro spec_stage_range) simp_all
  have rate: "shift_left_1 st = Inr (2 ^ nat st) \<and> (2::int) ^ nat st \<le> 268435456"
    using range spec_k_le_29 [OF N bound] by (intro rate_value) simp_all
  have "(0::int) \<le> 2 ^ nat st" by simp
  then have sum: "int32 (n_tokens self + 2 ^ nat st) = Inr (n_tokens self + 2 ^ nat st)"
    using rate tokens by (intro int32_Inr) linarith+
  show ?thesis
    using True today last rate sum
    by (simp add: MaybeTurnOffLight_def spec_maybe_turn_off_def IsOff_def IsOn_def TurnOff_def
        st_def [symmetric] Let_def disj_commute)
qed

lemma MaybeTurnOnLight_spec:
  assumes N: "2 \<le> n_prisoners self"
    and bound: "spec_k (n_prisoners self) * (7 * n_prisoners self) \<le> 2147483647"
    and day: "0 \<le> day_number input" "day_number input < 2147483647"
    and tokens: "- 1073741824 \<le> n_tokens self" "n_tokens self \<le> 2147483647"
  shows "MaybeTurnOnLight self input =
    Inr (case spec_maybe_turn_on (n_prisoners self) (day_number input)
               (n_tokens self, is_on (light input)) of
           (tokens, signal) \<Rightarrow> (self\<lparr>n_tokens := tokens\<rparr>, (light input)\<lparr>is_on := signal\<rparr>))"
proof (cases "is_on (light input)")
  case True
  then show ?thesis
    by (simp add: MaybeTurnOnLight_def spec_maybe_turn_on_def IsOff_def IsOn_def)
next
  case False
  define st where "st = spec_stage (n_prisoners self) (day_number input + 1)"
  have next_day: "int32 (day_number input + 1) = Inr (day_number input + 1)"
    using day by (intro int32_Inr) simp_all
  have tomorrow: "GetStageIndex (n_prisoners self) (day_number input + 1) = Inr st"
    using N bound day unfolding st_def by (intro GetStageIndex_spec) simp_all
  have range: "0 \<le> st \<and> st < spec_k (n_prisoners self)"
    using N day unfolding st_def by (intro spec_stage_range) simp_all
  have rate: "shift_left_1 st = Inr (2 ^ nat st) \<and> (2::int) ^ nat st \<le> 268435456"
    using range spec_k_le_29 [OF N bound] by (intro rate_value) simp_all
  have "(0::int) \<le> 2 ^ nat st" by simp
  then have diff: "int32 (n_tokens self - 2 ^ nat st) = Inr (n_tokens self - 2 ^ nat st)"
    using rate tokens by (intro int32_Inr) linarith+
  show ?thesis
    using False next_day tomorrow rate diff
    by (simp add: MaybeTurnOnLight_def spec_maybe_turn_on_def IsOff_def IsOn_def TurnOn_def
        st_def [symmetric] Let_def)
qed

lemma spec_maybe_turn_off_range:
  assumes N: "2 \<le> N" and bound: "spec_k N * (7 * N) \<le> 2147483647" and day: "0 \<le> day"
    and off: "spec_maybe_turn_off N day (tokens, signal) = (tokens1, signal1)"
  shows "tokens \<le> tokens1 \<and> tokens1 \<le> tokens + 268435456"
proof -
  have "0 \<le> spec_stage N day \<and> spec_stage N day < spec_k N"
    using N day by (intro spec_stage_range) simp_all
  then have "(2::int) ^ nat (spec_stage N day) \<le> 268435456"
    using spec_k_le_29 [OF N bound] rate_value [of "spec_stage N day" "spec_k N"] by simp
  moreover have "(0::int) \<le> 2 ^ nat (spec_stage N day)" by simp
  ultimately show ?thesis
    using off by (auto simp: spec_maybe_turn_off_def Let_def split: if_splits)
qed

lemma ShouldClaim_spec:
  assumes N: "2 \<le> n_prisoners self"
    and bound: "spec_k (n_prisoners self) * (7 * n_prisoners self) \<le> 2147483647"
  shows "ShouldClaimThatEveryoneHasBeenInTheRoom self =
    Inr (n_tokens self = 2 ^ nat (spec_k (n_prisoners self)))"
proof -
  have "0 \<le> spec_k (n_prisoners self)" by (simp add: spec_k_def)
  then have "shift_left_1 (spec_k (n_prisoners self)) = Inr (2 ^ nat (spec_k (n_prisoners self)))"
    using spec_k_le_29 [OF N bound] by (simp add: shift_left_1_def)
  then show ?thesis
    using N by (simp add: ShouldClaimThatEveryoneHasBeenInTheRoom_def GetClosest_pos
        spec_k_def [symmetric])
qed

text \<open>
  C6. A visit of a token prisoner, for \<open>N \<ge> 2\<close> and numbers within \<open>int32_t\<close>, is the
  specification's three steps in their order: first the prisoner may take the token off
  the light (the light is on, and the prisoner holds the bit of today's rate or today is
  the last day of the stage), then, the light being off, the prisoner may put a token of
  tomorrow's rate on the light, and last the prisoner claims exactly when it holds
  \<open>2 ^ k\<close> tokens.
\<close>

theorem TakeAction_order:
  assumes N: "2 \<le> n_prisoners self"
    and bound: "spec_k (n_prisoners self) * (7 * n_prisoners self) \<le> 2147483647"
    and day: "0 \<le> day_number input" "day_number input < 2147483647"
    and tokens: "0 \<le> n_tokens self" "n_tokens self \<le> 1073741824"
  shows "TokenPrisoner_TakeAction self input =
    Inr (case spec_take_action (n_prisoners self) (day_number input)
               (n_tokens self, is_on (light input)) of
           (claim, tokens, signal) \<Rightarrow>
             (claim, self\<lparr>n_tokens := tokens\<rparr>, (light input)\<lparr>is_on := signal\<rparr>))"
proof -
  obtain tokens1 signal1 where off:
    "spec_maybe_turn_off (n_prisoners self) (day_number input) (n_tokens self, is_on (light input))
       = (tokens1, signal1)"
    by (cases "spec_maybe_turn_off (n_prisoners self) (day_number input)
                 (n_tokens self, is_on (light input))")
  obtain tokens2 signal2 where on:
    "spec_maybe_turn_on (n_prisoners self) (day_number input) (tokens1, signal1)
       = (tokens2, signal2)"
    by (cases "spec_maybe_turn_on (n_prisoners self) (day_number input) (tokens1, signal1)")
  define self1 where "self1 = self\<lparr>n_tokens := tokens1\<rparr>"
  define input1 where "input1 = input\<lparr>light := (light input)\<lparr>is_on := signal1\<rparr>\<rparr>"
  have range1: "n_tokens self \<le> tokens1 \<and> tokens1 \<le> n_tokens self + 268435456"
    using N bound day(1) off by (rule spec_maybe_turn_off_range)
  have step1: "MaybeTurnOffLight self input = Inr (self1, light input1)"
    using MaybeTurnOffLight_spec [of self input] N bound day tokens off
    by (simp add: self1_def input1_def)
  have "MaybeTurnOnLight self1 input1 =
    Inr (case spec_maybe_turn_on (n_prisoners self1) (day_number input1)
               (n_tokens self1, is_on (light input1)) of
           (tokens, signal) \<Rightarrow> (self1\<lparr>n_tokens := tokens\<rparr>, (light input1)\<lparr>is_on := signal\<rparr>))"
    using N bound day tokens range1
    by (intro MaybeTurnOnLight_spec) (simp_all add: self1_def input1_def)
  then have step2: "MaybeTurnOnLight self1 input1 =
      Inr (self\<lparr>n_tokens := tokens2\<rparr>, (light input)\<lparr>is_on := signal2\<rparr>)"
    using on by (simp add: self1_def input1_def)
  have step3: "ShouldClaimThatEveryoneHasBeenInTheRoom (self\<lparr>n_tokens := tokens2\<rparr>) =
      Inr (tokens2 = 2 ^ nat (spec_k (n_prisoners self)))"
    using ShouldClaim_spec [of "self\<lparr>n_tokens := tokens2\<rparr>"] N bound by simp
  have same: "input\<lparr>light := light input1\<rparr> = input1"
    by (simp add: input1_def)
  show ?thesis
    using step1 step2 step3 off on
    by (simp add: TokenPrisoner_TakeAction_def spec_take_action_def same)
qed


theorem TakeAction_order_witness:
  "2 \<le> n_prisoners \<lparr>prisoner_id = 0, n_prisoners = 3, n_tokens = 2\<rparr>
    \<and> spec_k 3 * (7 * 3) \<le> 2147483647
    \<and> (0::int) \<le> 20 \<and> (20::int) < 2147483647 \<and> (0::int) \<le> 2 \<and> (2::int) \<le> 1073741824
    \<and> TokenPrisoner_TakeAction \<lparr>prisoner_id = 0, n_prisoners = 3, n_tokens = 2\<rparr>
          \<lparr>day_number = 20, light = \<lparr>is_on = True\<rparr>\<rparr>
        = Inr (claim_nothing, \<lparr>prisoner_id = 0, n_prisoners = 3, n_tokens = 1\<rparr>,
               \<lparr>is_on = True\<rparr>)"
proof -
  have k: "spec_k 3 = 2"
    by (simp add: spec_k_def ceillog2_3)
  have "spec_take_action 3 20 (2, True) = (claim_nothing, 1, True)"
    by (simp add: spec_take_action_def spec_maybe_turn_on_def spec_maybe_turn_off_def
        spec_last_day_of_stage_def spec_stage_def k)
  then show ?thesis
    using TakeAction_order [of "\<lparr>prisoner_id = 0, n_prisoners = 3, n_tokens = 2\<rparr>"
        "\<lparr>day_number = 20, light = \<lparr>is_on = True\<rparr>\<rparr>"]
    by (simp add: k)
qed

section \<open>The visit of a dedicated-counter prisoner\<close>

text \<open>
  C5. A visit of a dedicated-counter prisoner, the counts being within \<open>int32_t\<close>. The
  leader (prisoner 0) who finds the light on turns it off and adds one to its count; the
  leader claims exactly when its count, after that, is \<open>n_prisoners - 1\<close>. Any other
  prisoner who has not turned the light on before and finds it off turns it on and
  remembers that; it claims nothing, whatever it does.
\<close>

theorem DedicatedCounterPrisoner_TakeAction_cases:
  assumes "- 2147483648 \<le> times_turned_off_the_light self"
    and "times_turned_off_the_light self < 2147483647"
    and "- 2147483648 < n_prisoners self" and "n_prisoners self \<le> 2147483647"
  shows "(prisoner_id self = 0 \<and> IsOn (light input) \<longrightarrow>
           DedicatedCounterPrisoner_TakeAction self input =
             Inr (if times_turned_off_the_light self + 1 = n_prisoners self - 1
                  then claim_that_everyone_has_been_in_the_room else claim_nothing,
                  self\<lparr>times_turned_off_the_light := times_turned_off_the_light self + 1\<rparr>,
                  TurnOff (light input)))
    \<and> (prisoner_id self = 0 \<and> IsOff (light input) \<longrightarrow>
           DedicatedCounterPrisoner_TakeAction self input =
             Inr (if times_turned_off_the_light self = n_prisoners self - 1
                  then claim_that_everyone_has_been_in_the_room else claim_nothing,
                  self, light input))
    \<and> (prisoner_id self \<noteq> 0 \<and> \<not> has_turned_on_the_light self \<and> IsOff (light input) \<longrightarrow>
           DedicatedCounterPrisoner_TakeAction self input =
             Inr (claim_nothing, self\<lparr>has_turned_on_the_light := True\<rparr>, TurnOn (light input)))
    \<and> (prisoner_id self \<noteq> 0 \<and> (has_turned_on_the_light self \<or> IsOn (light input)) \<longrightarrow>
           DedicatedCounterPrisoner_TakeAction self input = Inr (claim_nothing, self, light input))
    \<and> IsOff (TurnOff (light input)) \<and> IsOn (TurnOn (light input))"
proof -
  have count: "int32 (times_turned_off_the_light self + 1) = Inr (times_turned_off_the_light self + 1)"
    using assms(1,2) by (intro int32_Inr) linarith+
  have others: "int32 (n_prisoners self - 1) = Inr (n_prisoners self - 1)"
    using assms(3,4) by (intro int32_Inr) linarith+
  show ?thesis
    using count others
    by (simp add: DedicatedCounterPrisoner_TakeAction_def IsOff_def IsOn_def TurnOff_def TurnOn_def)
qed

theorem DedicatedCounterPrisoner_TakeAction_cases_witness:
  "DedicatedCounterPrisoner_TakeAction
      \<lparr>prisoner_id = 0, n_prisoners = 3, has_turned_on_the_light = False,
       times_turned_off_the_light = 1\<rparr>
      \<lparr>day_number = 5, light = \<lparr>is_on = True\<rparr>\<rparr>
    = Inr (claim_that_everyone_has_been_in_the_room,
           \<lparr>prisoner_id = 0, n_prisoners = 3, has_turned_on_the_light = False,
            times_turned_off_the_light = 2\<rparr>, \<lparr>is_on = False\<rparr>)
   \<and> DedicatedCounterPrisoner_TakeAction
      \<lparr>prisoner_id = 0, n_prisoners = 3, has_turned_on_the_light = False,
       times_turned_off_the_light = 1\<rparr>
      \<lparr>day_number = 5, light = \<lparr>is_on = False\<rparr>\<rparr>
    = Inr (claim_nothing,
           \<lparr>prisoner_id = 0, n_prisoners = 3, has_turned_on_the_light = False,
            times_turned_off_the_light = 1\<rparr>, \<lparr>is_on = False\<rparr>)
   \<and> DedicatedCounterPrisoner_TakeAction
      \<lparr>prisoner_id = 2, n_prisoners = 3, has_turned_on_the_light = False,
       times_turned_off_the_light = 0\<rparr>
      \<lparr>day_number = 5, light = \<lparr>is_on = False\<rparr>\<rparr>
    = Inr (claim_nothing,
           \<lparr>prisoner_id = 2, n_prisoners = 3, has_turned_on_the_light = True,
            times_turned_off_the_light = 0\<rparr>, \<lparr>is_on = True\<rparr>)
   \<and> DedicatedCounterPrisoner_TakeAction
      \<lparr>prisoner_id = 2, n_prisoners = 3, has_turned_on_the_light = True,
       times_turned_off_the_light = 0\<rparr>
      \<lparr>day_number = 5, light = \<lparr>is_on = False\<rparr>\<rparr>
    = Inr (claim_nothing,
           \<lparr>prisoner_id = 2, n_prisoners = 3, has_turned_on_the_light = True,
            times_turned_off_the_light = 0\<rparr>, \<lparr>is_on = False\<rparr>)"
  using
    DedicatedCounterPrisoner_TakeAction_cases
      [of "\<lparr>prisoner_id = 0, n_prisoners = 3, has_turned_on_the_light = False,
            times_turned_off_the_light = 1\<rparr>" "\<lparr>day_number = 5, light = \<lparr>is_on = True\<rparr>\<rparr>"]
    DedicatedCounterPrisoner_TakeAction_cases
      [of "\<lparr>prisoner_id = 0, n_prisoners = 3, has_turned_on_the_light = False,
            times_turned_off_the_light = 1\<rparr>" "\<lparr>day_number = 5, light = \<lparr>is_on = False\<rparr>\<rparr>"]
    DedicatedCounterPrisoner_TakeAction_cases
      [of "\<lparr>prisoner_id = 2, n_prisoners = 3, has_turned_on_the_light = False,
            times_turned_off_the_light = 0\<rparr>" "\<lparr>day_number = 5, light = \<lparr>is_on = False\<rparr>\<rparr>"]
    DedicatedCounterPrisoner_TakeAction_cases
      [of "\<lparr>prisoner_id = 2, n_prisoners = 3, has_turned_on_the_light = True,
            times_turned_off_the_light = 0\<rparr>" "\<lparr>day_number = 5, light = \<lparr>is_on = False\<rparr>\<rparr>"]
  by (simp add: IsOn_def IsOff_def TurnOn_def TurnOff_def)

section \<open>The prison's day and run\<close>

lemma emplace_all_length: "emplace_all rs = Inr ps \<Longrightarrow> length ps = length rs"
  by (induction rs arbitrary: ps) (auto simp: and_then_eq_Inr)

lemma Prison_new_fields:
  assumes "Prison_new new n = Inr prison"
  shows "prison_n_prisoners prison = n \<and> 1 \<le> n \<and> prison_day_number prison = 0
    \<and> prison_light prison = \<lparr>is_on = False\<rparr>
    \<and> length (prisoners prison) = nat n
    \<and> prisoners_have_been_in_the_room_indicators prison = replicate (nat n) False"
  using assms emplace_all_length [of "map (\<lambda>i. new (int i) n) [0..<nat n]"]
  by (auto simp: Prison_new_def and_then_eq_Inr split: if_splits)

lemma NextDay_Inr:
  "NextDay take_action drawn prison = Inr (claim, prison1) \<longleftrightarrow>
     drawn < length (prisoners prison)
     \<and> drawn < length (prisoners_have_been_in_the_room_indicators prison)
     \<and> (\<exists>prisoner light1.
          take_action (prisoners prison ! drawn)
            \<lparr>day_number = prison_day_number prison, light = prison_light prison\<rparr>
            = Inr (claim, prisoner, light1)
          \<and> prison_day_number prison + 1 \<le> 2147483647
          \<and> - 2147483648 \<le> prison_day_number prison + 1
          \<and> prison1 = prison
              \<lparr>prisoners_have_been_in_the_room_indicators :=
                 (prisoners_have_been_in_the_room_indicators prison)[drawn := True],
               prisoners := (prisoners prison)[drawn := prisoner],
               prison_light := light1,
               prison_day_number := prison_day_number prison + 1\<rparr>)"
  by (auto simp: NextDay_def Let_def and_then_eq_Inr int32_eq_Inr)

lemma quiet_days_day_number:
  "quiet_days take_action draws prison = Some prison2 \<Longrightarrow>
     prison_day_number prison2 = prison_day_number prison + int (length draws)"
proof (induction draws arbitrary: prison)
  case Nil
  then show ?case by simp
next
  case (Cons drawn draws)
  then obtain prison1 where day: "NextDay take_action drawn prison = Inr (claim_nothing, prison1)"
    and rest: "quiet_days take_action draws prison1 = Some prison2"
    by (auto split: sum.splits if_splits)
  have "prison_day_number prison1 = prison_day_number prison + 1"
    using day by (auto simp: NextDay_Inr)
  then show ?case using Cons.IH [OF rest] by simp
qed

text \<open>
  C9. A day of the prison, for the prisoner drawn (an index below \<open>n_prisoners\<close>; the
  draw itself is the library's uniform distribution over \<open>[0, n_prisoners - 1]\<close> and is an
  argument here). The day marks the drawn prisoner as having been in the room, calls
  the prisoner's action with the day number as it was and the light, adds one to the
  day number and returns the prisoner's claim: the prison returned has the drawn
  prisoner marked, and the day number one higher. A new prison has day number 0, and
  after any number of days without a claim the day number is the number of visits.
\<close>

theorem NextDay_order:
  shows "(Prison_new new n = Inr prison0 \<longrightarrow> prison_day_number prison0 = 0)
    \<and> (drawn < length (prisoners prison)
        \<and> drawn < length (prisoners_have_been_in_the_room_indicators prison)
        \<and> take_action (prisoners prison ! drawn)
            \<lparr>day_number = prison_day_number prison, light = prison_light prison\<rparr>
            = Inr (claim, prisoner, light1)
        \<and> 0 \<le> prison_day_number prison \<and> prison_day_number prison < 2147483647 \<longrightarrow>
        NextDay take_action drawn prison =
          Inr (claim,
            prison
              \<lparr>prisoners_have_been_in_the_room_indicators :=
                 (prisoners_have_been_in_the_room_indicators prison)[drawn := True],
               prisoners := (prisoners prison)[drawn := prisoner],
               prison_light := light1,
               prison_day_number := prison_day_number prison + 1\<rparr>))
    \<and> (NextDay take_action drawn prison = Inr (claim, prison1) \<longrightarrow>
        prisoners_have_been_in_the_room_indicators prison1 ! drawn = True
        \<and> prison_day_number prison1 = prison_day_number prison + 1
        \<and> (\<exists>light1. take_action (prisoners prison ! drawn)
              \<lparr>day_number = prison_day_number prison, light = prison_light prison\<rparr>
              = Inr (claim, prisoners prison1 ! drawn, light1) \<and> prison_light prison1 = light1))
    \<and> (quiet_days take_action draws prison = Some prison2 \<longrightarrow>
        prison_day_number prison2 = prison_day_number prison + int (length draws))"
proof -
  have start: "Prison_new new n = Inr prison0 \<longrightarrow> prison_day_number prison0 = 0"
    using Prison_new_fields [of new n prison0] by simp
  have step: "NextDay take_action drawn prison = Inr (claim, prison1) \<longrightarrow>
        prisoners_have_been_in_the_room_indicators prison1 ! drawn = True
        \<and> prison_day_number prison1 = prison_day_number prison + 1
        \<and> (\<exists>light1. take_action (prisoners prison ! drawn)
              \<lparr>day_number = prison_day_number prison, light = prison_light prison\<rparr>
              = Inr (claim, prisoners prison1 ! drawn, light1) \<and> prison_light prison1 = light1)"
    by (auto simp: NextDay_Inr)
  have days: "quiet_days take_action draws prison = Some prison2 \<Longrightarrow>
        prison_day_number prison2 = prison_day_number prison + int (length draws)"
    by (rule quiet_days_day_number)
  show ?thesis
    using start step days by (auto simp: NextDay_Inr)
qed

lemma Run_Some_iff:
  "Run take_action draws prison = Some out \<longleftrightarrow>
     (\<exists>pre drawn post prison1.
        draws = pre @ drawn # post
        \<and> quiet_days take_action pre prison = Some prison1
        \<and> (case NextDay take_action drawn prison1 of
             Inl e \<Rightarrow> out = Undefined e
           | Inr (claim, prison2) \<Rightarrow>
               claim = claim_that_everyone_has_been_in_the_room
               \<and> out = (if HaveAllPrisonersBeenInTheRoom prison2
                        then Returned (prison_day_number prison2)
                        else FalsePrisonerClaimException)))"
  (is "?l draws prison \<longleftrightarrow> ?r draws prison")
proof (induction draws arbitrary: prison)
  case Nil
  show ?case by simp
next
  case (Cons d ds)
  show ?case
  proof (cases "NextDay take_action d prison")
    case (Inl e)
    have "?r (d # ds) prison \<longleftrightarrow> out = Undefined e"
    proof
      assume "?r (d # ds) prison"
      then obtain pre drawn post prison1 where
        split: "d # ds = pre @ drawn # post"
        and quiet: "quiet_days take_action pre prison = Some prison1"
        and verdict: "(case NextDay take_action drawn prison1 of
             Inl e \<Rightarrow> out = Undefined e
           | Inr (claim, prison2) \<Rightarrow>
               claim = claim_that_everyone_has_been_in_the_room
               \<and> out = (if HaveAllPrisonersBeenInTheRoom prison2
                        then Returned (prison_day_number prison2)
                        else FalsePrisonerClaimException))"
        by blast
      have "pre = []"
      proof (cases pre)
        case (Cons a as)
        then show ?thesis using split quiet Inl by simp
      qed simp
      then show "out = Undefined e" using split quiet verdict Inl by simp
    next
      assume "out = Undefined e"
      then have "d # ds = [] @ d # ds \<and> quiet_days take_action [] prison = Some prison
        \<and> (case NextDay take_action d prison of
             Inl e \<Rightarrow> out = Undefined e
           | Inr (claim, prison2) \<Rightarrow>
               claim = claim_that_everyone_has_been_in_the_room
               \<and> out = (if HaveAllPrisonersBeenInTheRoom prison2
                        then Returned (prison_day_number prison2)
                        else FalsePrisonerClaimException))"
        using Inl by simp
      then show "?r (d # ds) prison" by blast
    qed
    then show ?thesis using Inl by auto
  next
    case (Inr cp)
    obtain claim prison1 where cp: "cp = (claim, prison1)" by (cases cp)
    show ?thesis
    proof (cases "claim = claim_that_everyone_has_been_in_the_room")
      case True
      define verdict where "verdict = (if HaveAllPrisonersBeenInTheRoom prison1
                        then Returned (prison_day_number prison1)
                        else FalsePrisonerClaimException)"
      have "?r (d # ds) prison \<longleftrightarrow> out = verdict"
      proof
        assume "?r (d # ds) prison"
        then obtain pre drawn post prison1' where
          split: "d # ds = pre @ drawn # post"
          and quiet: "quiet_days take_action pre prison = Some prison1'"
          and verdict: "(case NextDay take_action drawn prison1' of
               Inl e \<Rightarrow> out = Undefined e
             | Inr (claim, prison2) \<Rightarrow>
                 claim = claim_that_everyone_has_been_in_the_room
                 \<and> out = (if HaveAllPrisonersBeenInTheRoom prison2
                          then Returned (prison_day_number prison2)
                          else FalsePrisonerClaimException))"
          by blast
        have "pre = []"
        proof (cases pre)
          case (Cons a as)
          then show ?thesis using split quiet Inr cp True by simp
        qed simp
        then show "out = verdict" using split quiet verdict Inr cp by (simp add: verdict_def)
      next
        assume "out = verdict"
        then have "d # ds = [] @ d # ds \<and> quiet_days take_action [] prison = Some prison
          \<and> (case NextDay take_action d prison of
               Inl e \<Rightarrow> out = Undefined e
             | Inr (claim, prison2) \<Rightarrow>
                 claim = claim_that_everyone_has_been_in_the_room
                 \<and> out = (if HaveAllPrisonersBeenInTheRoom prison2
                          then Returned (prison_day_number prison2)
                          else FalsePrisonerClaimException))"
          using Inr cp True by (simp add: verdict_def)
        then show "?r (d # ds) prison" by blast
      qed
      then show ?thesis using Inr cp True by (auto simp: verdict_def)
    next
      case False
      then have no_claim: "claim = claim_nothing" by (cases claim) simp_all
      have "?r (d # ds) prison \<longleftrightarrow> ?r ds prison1"
      proof
        assume "?r (d # ds) prison"
        then obtain pre drawn post prison1' where
          split: "d # ds = pre @ drawn # post"
          and quiet: "quiet_days take_action pre prison = Some prison1'"
          and verdict: "(case NextDay take_action drawn prison1' of
               Inl e \<Rightarrow> out = Undefined e
             | Inr (claim, prison2) \<Rightarrow>
                 claim = claim_that_everyone_has_been_in_the_room
                 \<and> out = (if HaveAllPrisonersBeenInTheRoom prison2
                          then Returned (prison_day_number prison2)
                          else FalsePrisonerClaimException))"
          by blast
        show "?r ds prison1"
        proof (cases pre)
          case Nil
          then show ?thesis using split quiet verdict Inr cp False by simp
        next
          case (Cons a as)
          then have "ds = as @ drawn # post \<and> quiet_days take_action as prison1 = Some prison1'"
            using split quiet Inr cp by (auto split: if_splits)
          then show ?thesis using verdict by blast
        qed
      next
        assume "?r ds prison1"
        then obtain pre drawn post prison1' where
          split: "ds = pre @ drawn # post"
          and quiet: "quiet_days take_action pre prison1 = Some prison1'"
          and verdict: "(case NextDay take_action drawn prison1' of
               Inl e \<Rightarrow> out = Undefined e
             | Inr (claim, prison2) \<Rightarrow>
                 claim = claim_that_everyone_has_been_in_the_room
                 \<and> out = (if HaveAllPrisonersBeenInTheRoom prison2
                          then Returned (prison_day_number prison2)
                          else FalsePrisonerClaimException))"
          by blast
        have "d # ds = (d # pre) @ drawn # post
          \<and> quiet_days take_action (d # pre) prison = Some prison1'"
          using split quiet Inr cp no_claim by auto
        then show "?r (d # ds) prison" using verdict by blast
      qed
      then show ?thesis using Inr cp False Cons.IH [of prison1] by simp
    qed
  qed
qed

lemma Run_None_iff:
  "Run take_action draws prison = None \<longleftrightarrow> quiet_days take_action draws prison \<noteq> None"
proof (induction draws arbitrary: prison)
  case Nil
  show ?case by simp
next
  case (Cons d ds)
  show ?case
  proof (cases "NextDay take_action d prison")
    case (Inl e)
    then show ?thesis by simp
  next
    case (Inr cp)
    obtain claim prison1 where cp: "cp = (claim, prison1)" by (cases cp)
    show ?thesis using Inr cp Cons.IH [of prison1] by (cases claim) simp_all
  qed
qed

lemma HaveAll_iff:
  "HaveAllPrisonersBeenInTheRoom prison \<longleftrightarrow>
     False \<notin> set (prisoners_have_been_in_the_room_indicators prison)"
proof -
  have "list_all (\<lambda>x. x) bs \<longleftrightarrow> False \<notin> set bs" for bs
    by (induction bs) auto
  then show ?thesis by (simp add: HaveAllPrisonersBeenInTheRoom_def)
qed

lemma Run_claimed_iff:
  "Run take_action draws prison = Some out \<and> (\<forall>e. out \<noteq> Undefined e) \<longleftrightarrow>
     (\<exists>pre drawn post prison1 prison2.
        draws = pre @ drawn # post
        \<and> quiet_days take_action pre prison = Some prison1
        \<and> NextDay take_action drawn prison1
            = Inr (claim_that_everyone_has_been_in_the_room, prison2)
        \<and> out = (if HaveAllPrisonersBeenInTheRoom prison2
                 then Returned (prison_day_number prison2)
                 else FalsePrisonerClaimException))"
  (is "?l \<longleftrightarrow> ?r")
proof
  assume ?l
  then obtain pre drawn post prison1 where
    split: "draws = pre @ drawn # post"
    and quiet: "quiet_days take_action pre prison = Some prison1"
    and verdict: "(case NextDay take_action drawn prison1 of
           Inl e \<Rightarrow> out = Undefined e
         | Inr (claim, prison2) \<Rightarrow>
             claim = claim_that_everyone_has_been_in_the_room
             \<and> out = (if HaveAllPrisonersBeenInTheRoom prison2
                      then Returned (prison_day_number prison2)
                      else FalsePrisonerClaimException))"
    and defined: "\<forall>e. out \<noteq> Undefined e"
    unfolding Run_Some_iff by blast
  from verdict defined obtain prison2 where
    "NextDay take_action drawn prison1
       = Inr (claim_that_everyone_has_been_in_the_room, prison2)"
    "out = (if HaveAllPrisonersBeenInTheRoom prison2
            then Returned (prison_day_number prison2)
            else FalsePrisonerClaimException)"
    by (auto split: sum.splits)
  then show ?r using split quiet by blast
next
  assume ?r
  then obtain pre drawn post prison1 prison2 where
    split: "draws = pre @ drawn # post"
    and quiet: "quiet_days take_action pre prison = Some prison1"
    and day: "NextDay take_action drawn prison1
            = Inr (claim_that_everyone_has_been_in_the_room, prison2)"
    and out: "out = (if HaveAllPrisonersBeenInTheRoom prison2
                 then Returned (prison_day_number prison2)
                 else FalsePrisonerClaimException)"
    by blast
  have "draws = pre @ drawn # post \<and> quiet_days take_action pre prison = Some prison1
    \<and> (case NextDay take_action drawn prison1 of
           Inl e \<Rightarrow> out = Undefined e
         | Inr (claim, prison2) \<Rightarrow>
             claim = claim_that_everyone_has_been_in_the_room
             \<and> out = (if HaveAllPrisonersBeenInTheRoom prison2
                      then Returned (prison_day_number prison2)
                      else FalsePrisonerClaimException))"
    using split quiet day out by simp
  then have "Run take_action draws prison = Some out"
    unfolding Run_Some_iff by blast
  moreover have "\<forall>e. out \<noteq> Undefined e"
    using out by simp
  ultimately show ?l by simp
qed

lemma Run_undefined_iff:
  "Run take_action draws prison = Some (Undefined e) \<longleftrightarrow>
      (\<exists>pre drawn post prison1.
         draws = pre @ drawn # post
         \<and> quiet_days take_action pre prison = Some prison1
         \<and> NextDay take_action drawn prison1 = Inl e)"
  (is "?l \<longleftrightarrow> ?r")
proof
  assume ?l
  then obtain pre drawn post prison1 where
    split: "draws = pre @ drawn # post"
    and quiet: "quiet_days take_action pre prison = Some prison1"
    and verdict: "(case NextDay take_action drawn prison1 of
           Inl e' \<Rightarrow> Undefined e = Undefined e'
         | Inr (claim, prison2) \<Rightarrow>
             claim = claim_that_everyone_has_been_in_the_room
             \<and> Undefined e = (if HaveAllPrisonersBeenInTheRoom prison2
                      then Returned (prison_day_number prison2)
                      else FalsePrisonerClaimException))"
    unfolding Run_Some_iff by blast
  from verdict have "NextDay take_action drawn prison1 = Inl e"
    by (auto split: sum.splits if_splits)
  then show ?r using split quiet by blast
next
  assume ?r
  then obtain pre drawn post prison1 where
    "draws = pre @ drawn # post" "quiet_days take_action pre prison = Some prison1"
    "NextDay take_action drawn prison1 = Inl e"
    by blast
  then have "draws = pre @ drawn # post \<and> quiet_days take_action pre prison = Some prison1
    \<and> (case NextDay take_action drawn prison1 of
           Inl e' \<Rightarrow> Undefined e = Undefined e'
         | Inr (claim, prison2) \<Rightarrow>
             claim = claim_that_everyone_has_been_in_the_room
             \<and> Undefined e = (if HaveAllPrisonersBeenInTheRoom prison2
                      then Returned (prison_day_number prison2)
                      else FalsePrisonerClaimException))"
    by simp
  then show ?l unfolding Run_Some_iff by blast
qed

text \<open>
  C2. \<open>Run\<close> calls \<open>NextDay\<close> until a day returns the claim. It throws
  \<open>FalsePrisonerClaimException\<close> exactly when, after some days without a claim, a day
  returns the claim while an indicator is still false; it returns exactly when such a day
  returns the claim with every indicator true, and what it returns is the prison's day
  number after that day, the number of visits made. The loop has no other exit: as long
  as no day returns the claim the run goes on, and the only other end is a day whose
  computation is undefined.
\<close>

theorem Run_outcomes:
  "(Run take_action draws prison = Some FalsePrisonerClaimException \<longleftrightarrow>
      (\<exists>pre drawn post prison1 prison2.
         draws = pre @ drawn # post
         \<and> quiet_days take_action pre prison = Some prison1
         \<and> NextDay take_action drawn prison1
             = Inr (claim_that_everyone_has_been_in_the_room, prison2)
         \<and> False \<in> set (prisoners_have_been_in_the_room_indicators prison2)))
   \<and> (Run take_action draws prison = Some (Returned day) \<longleftrightarrow>
      (\<exists>pre drawn post prison1 prison2.
         draws = pre @ drawn # post
         \<and> quiet_days take_action pre prison = Some prison1
         \<and> NextDay take_action drawn prison1
             = Inr (claim_that_everyone_has_been_in_the_room, prison2)
         \<and> False \<notin> set (prisoners_have_been_in_the_room_indicators prison2)
         \<and> day = prison_day_number prison2
         \<and> day = prison_day_number prison + int (length pre) + 1))
   \<and> (Run take_action draws prison = Some (Undefined e) \<longleftrightarrow>
      (\<exists>pre drawn post prison1.
         draws = pre @ drawn # post
         \<and> quiet_days take_action pre prison = Some prison1
         \<and> NextDay take_action drawn prison1 = Inl e))
   \<and> (Run take_action draws prison = None \<longleftrightarrow> quiet_days take_action draws prison \<noteq> None)"
proof (intro conjI)
  show "Run take_action draws prison = Some FalsePrisonerClaimException \<longleftrightarrow>
      (\<exists>pre drawn post prison1 prison2.
         draws = pre @ drawn # post
         \<and> quiet_days take_action pre prison = Some prison1
         \<and> NextDay take_action drawn prison1
             = Inr (claim_that_everyone_has_been_in_the_room, prison2)
         \<and> False \<in> set (prisoners_have_been_in_the_room_indicators prison2))"
    (is "?l \<longleftrightarrow> ?r")
  proof
    assume ?l
    then obtain pre drawn post prison1 prison2 where
      split: "draws = pre @ drawn # post"
      and quiet: "quiet_days take_action pre prison = Some prison1"
      and day: "NextDay take_action drawn prison1
              = Inr (claim_that_everyone_has_been_in_the_room, prison2)"
      and out: "FalsePrisonerClaimException = (if HaveAllPrisonersBeenInTheRoom prison2
                   then Returned (prison_day_number prison2)
                   else FalsePrisonerClaimException)"
      using Run_claimed_iff [of take_action draws prison FalsePrisonerClaimException] by auto
    have "False \<in> set (prisoners_have_been_in_the_room_indicators prison2)"
      using out by (auto simp: HaveAll_iff split: if_splits)
    then show ?r using split quiet day by blast
  next
    assume ?r
    then obtain pre drawn post prison1 prison2 where
      "draws = pre @ drawn # post" "quiet_days take_action pre prison = Some prison1"
      "NextDay take_action drawn prison1
         = Inr (claim_that_everyone_has_been_in_the_room, prison2)"
      "\<not> HaveAllPrisonersBeenInTheRoom prison2"
      unfolding HaveAll_iff by blast
    then have "\<exists>pre drawn post prison1 prison2.
        draws = pre @ drawn # post
        \<and> quiet_days take_action pre prison = Some prison1
        \<and> NextDay take_action drawn prison1
            = Inr (claim_that_everyone_has_been_in_the_room, prison2)
        \<and> FalsePrisonerClaimException = (if HaveAllPrisonersBeenInTheRoom prison2
                 then Returned (prison_day_number prison2)
                 else FalsePrisonerClaimException)"
      by (intro exI [of _ pre] exI [of _ drawn] exI [of _ post] exI [of _ prison1]
          exI [of _ prison2]) simp
    then show ?l
      using Run_claimed_iff [of take_action draws prison FalsePrisonerClaimException] by blast
  qed
next
  show "Run take_action draws prison = Some (Returned day) \<longleftrightarrow>
      (\<exists>pre drawn post prison1 prison2.
         draws = pre @ drawn # post
         \<and> quiet_days take_action pre prison = Some prison1
         \<and> NextDay take_action drawn prison1
             = Inr (claim_that_everyone_has_been_in_the_room, prison2)
         \<and> False \<notin> set (prisoners_have_been_in_the_room_indicators prison2)
         \<and> day = prison_day_number prison2
         \<and> day = prison_day_number prison + int (length pre) + 1)"
    (is "?l \<longleftrightarrow> ?r")
  proof
    assume ?l
    then obtain pre drawn post prison1 prison2 where
      split: "draws = pre @ drawn # post"
      and quiet: "quiet_days take_action pre prison = Some prison1"
      and day: "NextDay take_action drawn prison1
              = Inr (claim_that_everyone_has_been_in_the_room, prison2)"
      and out: "Returned day = (if HaveAllPrisonersBeenInTheRoom prison2
                   then Returned (prison_day_number prison2)
                   else FalsePrisonerClaimException)"
      using Run_claimed_iff [of take_action draws prison "Returned day"] by auto
    have all: "False \<notin> set (prisoners_have_been_in_the_room_indicators prison2)"
      and ret: "day = prison_day_number prison2"
      using out by (auto simp: HaveAll_iff split: if_splits)
    have "prison_day_number prison2 = prison_day_number prison1 + 1"
      using day by (auto simp: NextDay_Inr)
    then have "day = prison_day_number prison + int (length pre) + 1"
      using quiet_days_day_number [OF quiet] ret by simp
    then show ?r
      using split quiet day all ret by blast
  next
    assume ?r
    then obtain pre drawn post prison1 prison2 where
      "draws = pre @ drawn # post" "quiet_days take_action pre prison = Some prison1"
      "NextDay take_action drawn prison1
             = Inr (claim_that_everyone_has_been_in_the_room, prison2)"
      "HaveAllPrisonersBeenInTheRoom prison2" "day = prison_day_number prison2"
      unfolding HaveAll_iff by blast
    then have "\<exists>pre drawn post prison1 prison2.
        draws = pre @ drawn # post
        \<and> quiet_days take_action pre prison = Some prison1
        \<and> NextDay take_action drawn prison1
            = Inr (claim_that_everyone_has_been_in_the_room, prison2)
        \<and> Returned day = (if HaveAllPrisonersBeenInTheRoom prison2
                 then Returned (prison_day_number prison2)
                 else FalsePrisonerClaimException)"
      by (intro exI [of _ pre] exI [of _ drawn] exI [of _ post] exI [of _ prison1]
          exI [of _ prison2]) simp
    then show ?l
      using Run_claimed_iff [of take_action draws prison "Returned day"] by blast
  qed
next
  show "Run take_action draws prison = Some (Undefined e) \<longleftrightarrow>
      (\<exists>pre drawn post prison1.
         draws = pre @ drawn # post
         \<and> quiet_days take_action pre prison = Some prison1
         \<and> NextDay take_action drawn prison1 = Inl e)"
    by (rule Run_undefined_iff)
next
  show "Run take_action draws prison = None \<longleftrightarrow> quiet_days take_action draws prison \<noteq> None"
    by (rule Run_None_iff)
qed

theorem Run_outcomes_witness:
  "Run DedicatedCounterPrisoner_TakeAction [1, 0] two_counters = Some (Returned 2)
   \<and> Run DedicatedCounterPrisoner_TakeAction [0] miscounted_counters
       = Some FalsePrisonerClaimException
   \<and> Run DedicatedCounterPrisoner_TakeAction [1] two_counters = None"
proof -
  have quiet: "quiet_days DedicatedCounterPrisoner_TakeAction [1] two_counters
      = Some two_counters_day1"
    by code_simp
  have day2: "NextDay DedicatedCounterPrisoner_TakeAction 0 two_counters_day1
      = Inr (claim_that_everyone_has_been_in_the_room, two_counters_day2)"
    by code_simp
  have all: "False \<notin> set (prisoners_have_been_in_the_room_indicators two_counters_day2)"
    by (simp add: two_counters_day2_def)
  have days: "prison_day_number two_counters_day2 = 2" "prison_day_number two_counters = 0"
    by (simp_all add: two_counters_day2_def two_counters_def)
  have "\<exists>pre drawn post prison1 prison2.
         [1, 0] = pre @ drawn # post
         \<and> quiet_days DedicatedCounterPrisoner_TakeAction pre two_counters = Some prison1
         \<and> NextDay DedicatedCounterPrisoner_TakeAction drawn prison1
             = Inr (claim_that_everyone_has_been_in_the_room, prison2)
         \<and> False \<notin> set (prisoners_have_been_in_the_room_indicators prison2)
         \<and> 2 = prison_day_number prison2
         \<and> 2 = prison_day_number two_counters + int (length pre) + 1"
    using quiet day2 all days
    by (intro exI [of _ "[1]"] exI [of _ 0] exI [of _ "[]"] exI [of _ two_counters_day1]
        exI [of _ two_counters_day2]) simp
  then have returned: "Run DedicatedCounterPrisoner_TakeAction [1, 0] two_counters
      = Some (Returned 2)"
    by (rule Run_outcomes [of DedicatedCounterPrisoner_TakeAction "[1, 0]" two_counters 2
        DivisionByZero, THEN conjunct2, THEN conjunct1, THEN iffD2])
  have quiet0: "quiet_days DedicatedCounterPrisoner_TakeAction [] miscounted_counters
      = Some miscounted_counters"
    by simp
  have day1: "NextDay DedicatedCounterPrisoner_TakeAction 0 miscounted_counters
      = Inr (claim_that_everyone_has_been_in_the_room, miscounted_counters_day1)"
    by code_simp
  have missing: "False \<in> set (prisoners_have_been_in_the_room_indicators miscounted_counters_day1)"
    by (simp add: miscounted_counters_day1_def)
  have "\<exists>pre drawn post prison1 prison2.
         [0] = pre @ drawn # post
         \<and> quiet_days DedicatedCounterPrisoner_TakeAction pre miscounted_counters = Some prison1
         \<and> NextDay DedicatedCounterPrisoner_TakeAction drawn prison1
             = Inr (claim_that_everyone_has_been_in_the_room, prison2)
         \<and> False \<in> set (prisoners_have_been_in_the_room_indicators prison2)"
    using quiet0 day1 missing
    by (intro exI [of _ "[]"] exI [of _ 0] exI [of _ "[]"] exI [of _ miscounted_counters]
        exI [of _ miscounted_counters_day1]) simp
  then have thrown: "Run DedicatedCounterPrisoner_TakeAction [0] miscounted_counters
      = Some FalsePrisonerClaimException"
    by (rule Run_outcomes [of DedicatedCounterPrisoner_TakeAction "[0]" miscounted_counters 0
        DivisionByZero, THEN conjunct1, THEN iffD2])
  have looping: "Run DedicatedCounterPrisoner_TakeAction [1] two_counters = None"
    using Run_outcomes [of DedicatedCounterPrisoner_TakeAction "[1]" two_counters 0
        DivisionByZero, THEN conjunct2, THEN conjunct2, THEN conjunct2] quiet
    by simp
  show ?thesis
    using returned thrown looping by simp
qed

theorem NextDay_order_witness:
  "Prison_new DedicatedCounterPrisoner_new 2 = Inr two_counters
   \<and> prison_day_number two_counters = 0
   \<and> NextDay DedicatedCounterPrisoner_TakeAction 1 two_counters
       = Inr (claim_nothing, two_counters_day1)
   \<and> prisoners_have_been_in_the_room_indicators two_counters_day1 ! 1 = True
   \<and> prison_day_number two_counters_day1 = prison_day_number two_counters + 1
   \<and> quiet_days DedicatedCounterPrisoner_TakeAction [1] two_counters = Some two_counters_day1
   \<and> prison_day_number two_counters_day1 = prison_day_number two_counters + int (length [1::nat])"
proof -
  have new: "Prison_new DedicatedCounterPrisoner_new 2 = Inr two_counters"
    by code_simp
  have action: "DedicatedCounterPrisoner_TakeAction (prisoners two_counters ! 1)
      \<lparr>day_number = prison_day_number two_counters, light = prison_light two_counters\<rparr>
    = Inr (claim_nothing,
        \<lparr>prisoner_id = 1, n_prisoners = 2, has_turned_on_the_light = True,
          times_turned_off_the_light = 0\<rparr>, \<lparr>is_on = True\<rparr>)"
    by code_simp
  have quiet: "quiet_days DedicatedCounterPrisoner_TakeAction [1] two_counters
      = Some two_counters_day1"
    by code_simp
  have after: "two_counters
      \<lparr>prisoners_have_been_in_the_room_indicators :=
         (prisoners_have_been_in_the_room_indicators two_counters)[1 := True],
       prisoners := (prisoners two_counters)
         [1 := \<lparr>prisoner_id = 1, n_prisoners = 2, has_turned_on_the_light = True,
                 times_turned_off_the_light = 0\<rparr>],
       prison_light := \<lparr>is_on = True\<rparr>,
       prison_day_number := prison_day_number two_counters + 1\<rparr> = two_counters_day1"
    by (simp add: two_counters_def two_counters_day1_def)
  have bounds: "1 < length (prisoners two_counters)"
    "1 < length (prisoners_have_been_in_the_room_indicators two_counters)"
    "0 \<le> prison_day_number two_counters" "prison_day_number two_counters < 2147483647"
    by (simp_all add: two_counters_def)
  note order = NextDay_order [where new = DedicatedCounterPrisoner_new and n = 2
      and ?prison0.0 = two_counters and drawn = 1 and prison = two_counters
      and take_action = DedicatedCounterPrisoner_TakeAction and claim = claim_nothing
      and prisoner = "\<lparr>prisoner_id = 1, n_prisoners = 2, has_turned_on_the_light = True,
          times_turned_off_the_light = 0\<rparr>"
      and ?light1.0 = "\<lparr>is_on = True\<rparr>" and ?prison1.0 = two_counters_day1
      and draws = "[1]" and ?prison2.0 = two_counters_day1]
  have day: "NextDay DedicatedCounterPrisoner_TakeAction 1 two_counters
       = Inr (claim_nothing, two_counters_day1)"
    using order new action bounds after by simp
  have count: "prison_day_number two_counters = 0" "prison_day_number two_counters_day1 = 1"
    "prisoners_have_been_in_the_room_indicators two_counters_day1 ! 1 = True"
    using order new day quiet by simp_all
  show ?thesis
    using new day quiet count by simp
qed

section \<open>Tokens are conserved\<close>

lemma shift_left_1_Inr: "shift_left_1 s = Inr w \<longleftrightarrow> 0 \<le> s \<and> s < 31 \<and> w = 2 ^ nat s"
  by (auto simp: shift_left_1_def)

lemma MaybeTurnOffLight_effect:
  assumes "MaybeTurnOffLight self input = Inr (self1, light1)"
  shows "n_prisoners self1 = n_prisoners self
    \<and> (if IsOff (light input) then self1 = self \<and> light1 = light input
       else \<exists>st st'.
          GetStageIndex (n_prisoners self) (day_number input) = Inr st
          \<and> GetStageIndex (n_prisoners self) (day_number input + 1) = Inr st'
          \<and> 0 \<le> st \<and> st < 31
          \<and> (if IsOff light1 then n_tokens self1 = n_tokens self + 2 ^ nat st
             else st' = st \<and> n_tokens self1 = n_tokens self))"
proof (cases "IsOff (light input)")
  case True
  then show ?thesis using assms by (simp add: MaybeTurnOffLight_def)
next
  case False
  then obtain st rate last where
    st: "GetStageIndex (n_prisoners self) (day_number input) = Inr st"
    and rate: "shift_left_1 st = Inr rate"
    and last: "IsLastDayOfTheStage (n_prisoners self) (day_number input) = Inr last"
    and rest: "(if last \<or> n_tokens self AND rate \<noteq> 0 then
            and_then (int32 (n_tokens self + rate)) (\<lambda>t.
              Inr (self\<lparr>n_tokens := t\<rparr>, TurnOff (light input)))
          else Inr (self, light input)) = Inr (self1, light1)"
    using assms by (auto simp: MaybeTurnOffLight_def and_then_eq_Inr Let_def)
  from last st obtain st' where
    st': "GetStageIndex (n_prisoners self) (day_number input + 1) = Inr st'"
    and last_eq: "last = (st \<noteq> st')"
    by (auto simp: IsLastDayOfTheStage_def and_then_eq_Inr int32_eq_Inr)
  show ?thesis
  proof (cases "last \<or> n_tokens self AND rate \<noteq> 0")
    case True
    then have "self1 = self\<lparr>n_tokens := n_tokens self + rate\<rparr> \<and> light1 = TurnOff (light input)"
      using rest by (auto simp: and_then_eq_Inr int32_eq_Inr)
    then show ?thesis
      using False st st' rate by (simp add: shift_left_1_Inr IsOff_def IsOn_def TurnOff_def)
  next
    case no: False
    then have "self1 = self \<and> light1 = light input" "st' = st"
      using rest last_eq by auto
    then show ?thesis
      using False st st' rate by (simp add: shift_left_1_Inr)
  qed
qed

lemma MaybeTurnOnLight_effect:
  assumes "MaybeTurnOnLight self input = Inr (self1, light1)"
  shows "n_prisoners self1 = n_prisoners self
    \<and> (if IsOn (light input) then self1 = self \<and> light1 = light input
       else if IsOff light1 then n_tokens self1 = n_tokens self
       else \<exists>st'.
          GetStageIndex (n_prisoners self) (day_number input + 1) = Inr st'
          \<and> 0 \<le> st' \<and> st' < 31
          \<and> n_tokens self1 = n_tokens self - 2 ^ nat st')"
proof (cases "IsOn (light input)")
  case True
  then show ?thesis using assms by (simp add: MaybeTurnOnLight_def)
next
  case False
  then obtain st' rate where
    st': "GetStageIndex (n_prisoners self) (day_number input + 1) = Inr st'"
    and rate: "shift_left_1 st' = Inr rate"
    and rest: "(if n_tokens self AND rate \<noteq> 0 then
            and_then (int32 (n_tokens self - rate)) (\<lambda>t.
              Inr (self\<lparr>n_tokens := t\<rparr>, TurnOn (light input)))
          else Inr (self, light input)) = Inr (self1, light1)"
    using assms by (auto simp: MaybeTurnOnLight_def and_then_eq_Inr Let_def int32_eq_Inr)
  show ?thesis
  proof (cases "n_tokens self AND rate \<noteq> 0")
    case True
    then have "self1 = self\<lparr>n_tokens := n_tokens self - rate\<rparr> \<and> light1 = TurnOn (light input)"
      using rest by (auto simp: and_then_eq_Inr int32_eq_Inr)
    then show ?thesis
      using False st' rate by (simp add: shift_left_1_Inr IsOff_def IsOn_def TurnOn_def)
  next
    case no: False
    then have "self1 = self \<and> light1 = light input"
      using rest by auto
    then show ?thesis
      using False by (simp add: IsOff_def)
  qed
qed

lemma TakeAction_conserves:
  assumes action: "TokenPrisoner_TakeAction self input = Inr (claim, self2, light2)"
    and weight: "token_on_light (n_prisoners self) (day_number input) (light input) = Inr w"
  shows "n_prisoners self2 = n_prisoners self
    \<and> (\<exists>w'. token_on_light (n_prisoners self) (day_number input + 1) light2 = Inr w'
          \<and> n_tokens self2 + w' = n_tokens self + w)"
proof -
  obtain self1 light1 where
    off: "MaybeTurnOffLight self input = Inr (self1, light1)"
    and on: "MaybeTurnOnLight self1 (input\<lparr>light := light1\<rparr>) = Inr (self2, light2)"
    using action by (auto simp: TokenPrisoner_TakeAction_def and_then_eq_Inr split: if_splits)
  note off_effect = MaybeTurnOffLight_effect [OF off]
  note on_effect = MaybeTurnOnLight_effect [OF on]
  have N: "n_prisoners self1 = n_prisoners self" "n_prisoners self2 = n_prisoners self"
    using off_effect on_effect by simp_all
  show ?thesis
  proof (cases "IsOff (light input)")
    case True
    then have w: "w = 0" using weight by (simp add: token_on_light_def IsOff_def)
    have same: "self1 = self" "light1 = light input" using off_effect True by simp_all
    show ?thesis
    proof (cases "IsOff light2")
      case True
      then show ?thesis
        using on_effect same \<open>IsOff (light input)\<close> N w
        by (simp add: token_on_light_def IsOff_def)
    next
      case False
      then obtain st' where "GetStageIndex (n_prisoners self) (day_number input + 1) = Inr st'"
        "0 \<le> st'" "st' < 31" "n_tokens self2 = n_tokens self - 2 ^ nat st'"
        using on_effect same \<open>IsOff (light input)\<close> by (auto simp: IsOff_def)
      then show ?thesis
        using False N w by (simp add: token_on_light_def IsOff_def shift_left_1_def)
    qed
  next
    case False
    then obtain st st' where
      st: "GetStageIndex (n_prisoners self) (day_number input) = Inr st"
      and st': "GetStageIndex (n_prisoners self) (day_number input + 1) = Inr st'"
      and range: "0 \<le> st" "st < 31"
      and taken: "if IsOff light1 then n_tokens self1 = n_tokens self + 2 ^ nat st
             else st' = st \<and> n_tokens self1 = n_tokens self"
      using off_effect by auto
    have w: "w = 2 ^ nat st"
      using weight False st range by (simp add: token_on_light_def IsOff_def shift_left_1_def)
    show ?thesis
    proof (cases "IsOff light1")
      case left: False
      then have "self2 = self1" "light2 = light1" "st' = st" "n_tokens self1 = n_tokens self"
        using on_effect taken by (simp_all add: IsOff_def)
      then show ?thesis
        using left N w st' range by (simp add: token_on_light_def IsOff_def shift_left_1_def)
    next
      case True
      then have t1: "n_tokens self1 = n_tokens self + 2 ^ nat st" using taken by simp
      show ?thesis
      proof (cases "IsOff light2")
        case True
        then show ?thesis
          using on_effect \<open>IsOff light1\<close> N w t1
          by (simp add: token_on_light_def IsOff_def)
      next
        case False
        then obtain st2 where "GetStageIndex (n_prisoners self1) (day_number input + 1) = Inr st2"
          "0 \<le> st2" "st2 < 31" "n_tokens self2 = n_tokens self1 - 2 ^ nat st2"
          using on_effect \<open>IsOff light1\<close> by (auto simp: IsOff_def)
        then show ?thesis
          using False N w t1 by (simp add: token_on_light_def IsOff_def shift_left_1_def)
      qed
    qed
  qed
qed

lemma states_invariant:
  assumes "I prison"
    and "\<And>p drawn claim p'. I p \<Longrightarrow> NextDay take_action drawn p = Inr (claim, p') \<Longrightarrow> I p'"
  shows "\<forall>s \<in> set (states take_action draws prison). I s"
  using assms(1)
proof (induction draws arbitrary: prison)
  case Nil
  then show ?case by simp
next
  case (Cons d ds)
  show ?case
  proof (cases "NextDay take_action d prison")
    case (Inl e)
    then show ?thesis using Cons.prems by simp
  next
    case (Inr cp)
    obtain claim prison1 where cp: "cp = (claim, prison1)" by (cases cp)
    have "I prison1" using assms(2) [OF Cons.prems] Inr cp by simp
    then show ?thesis
      using Cons.prems Cons.IH [of prison1] Inr cp by simp
  qed
qed

lemma sum_list_update_int:
  "k < length xs \<Longrightarrow> sum_list (xs[k := x]) = sum_list xs + x - (xs ! k :: int)"
  by (induction xs arbitrary: k) (auto split: nat.splits)

lemma NextDay_tokens:
  assumes day: "NextDay TokenPrisoner_TakeAction drawn p = Inr (claim, p')"
    and same: "\<forall>pr \<in> set (prisoners p). n_prisoners pr = N"
    and weight: "token_on_light N (prison_day_number p) (prison_light p) = Inr w"
  shows "prison_n_prisoners p' = prison_n_prisoners p
    \<and> (\<forall>pr \<in> set (prisoners p'). n_prisoners pr = N)
    \<and> (\<exists>w'. token_on_light N (prison_day_number p') (prison_light p') = Inr w'
          \<and> tokens_in_prison p' + w' = tokens_in_prison p + w)"
proof -
  obtain prisoner light1 where
    drawn: "drawn < length (prisoners p)"
    and action: "TokenPrisoner_TakeAction (prisoners p ! drawn)
            \<lparr>day_number = prison_day_number p, light = prison_light p\<rparr>
            = Inr (claim, prisoner, light1)"
    and p': "p' = p
              \<lparr>prisoners_have_been_in_the_room_indicators :=
                 (prisoners_have_been_in_the_room_indicators p)[drawn := True],
               prisoners := (prisoners p)[drawn := prisoner],
               prison_light := light1,
               prison_day_number := prison_day_number p + 1\<rparr>"
    using day unfolding NextDay_Inr by blast
  have N: "n_prisoners (prisoners p ! drawn) = N"
    using same drawn by simp
  have "n_prisoners prisoner = N
    \<and> (\<exists>w'. token_on_light N (prison_day_number p + 1) light1 = Inr w'
          \<and> n_tokens prisoner + w' = n_tokens (prisoners p ! drawn) + w)"
    using TakeAction_conserves [OF action] weight N by simp
  then obtain w' where
    N': "n_prisoners prisoner = N"
    and w': "token_on_light N (prison_day_number p + 1) light1 = Inr w'"
    and sum: "n_tokens prisoner + w' = n_tokens (prisoners p ! drawn) + w"
    by blast
  have "tokens_in_prison p' = tokens_in_prison p + n_tokens prisoner - n_tokens (prisoners p ! drawn)"
    using drawn by (simp add: p' tokens_in_prison_def map_update sum_list_update_int)
  then have "tokens_in_prison p' + w' = tokens_in_prison p + w"
    using sum by simp
  moreover have "\<forall>pr \<in> set (prisoners p'). n_prisoners pr = N"
    using same N' set_update_subset_insert [of "prisoners p" drawn prisoner]
    by (auto simp: p')
  ultimately show ?thesis
    using w' by (simp add: p')
qed

lemma emplace_all_map:
  "(\<And>x. x \<in> set xs \<Longrightarrow> f x = Inr (g x)) \<Longrightarrow> emplace_all (map f xs) = Inr (map g xs)"
  by (induction xs) simp_all

lemma sum_two_or_one:
  "0 \<le> e \<Longrightarrow> (\<Sum>i\<leftarrow>[0..<n]. if int i < e then 2 else (1::int)) = int n + min e (int n)"
  by (induction n) (auto simp: min_def)

lemma TokenPrisoner_Prison_new:
  assumes "Prison_new TokenPrisoner_new N = Inr prison0"
  shows "1 \<le> N \<and> prison_n_prisoners prison0 = N \<and> prison_day_number prison0 = 0
    \<and> prison_light prison0 = \<lparr>is_on = False\<rparr>
    \<and> prisoners prison0 =
        map (\<lambda>i. \<lparr>prisoner_id = int i, n_prisoners = N,
                  n_tokens = (if int i < 2 ^ ceillog2 (nat N) - N then 2 else 1)\<rparr>) [0..<nat N]
    \<and> tokens_in_prison prison0 = 2 ^ ceillog2 (nat N)"
proof -
  define k where "k = ceillog2 (nat N)"
  define g where "g = (\<lambda>i. \<lparr>prisoner_id = int i, n_prisoners = N,
                  n_tokens = (if int i < 2 ^ k - N then 2 else 1)\<rparr>)"
  have fields: "prison_n_prisoners prison0 = N" "1 \<le> N" "prison_day_number prison0 = 0"
    "prison_light prison0 = \<lparr>is_on = False\<rparr>"
    using Prison_new_fields [OF assms] by simp_all
  obtain ps where ps: "emplace_all (map (\<lambda>i. TokenPrisoner_new (int i) N) [0..<nat N]) = Inr ps"
    and prison0: "prisoners prison0 = ps"
    using assms by (auto simp: Prison_new_def and_then_eq_Inr split: if_splits)
  have "[0..<nat N] = 0 # [1..<nat N]"
    using fields(2) by (simp add: upt_conv_Cons)
  then obtain first where "TokenPrisoner_new 0 N = Inr first"
    using ps by (auto simp: and_then_eq_Inr)
  then have ok: "int k < 31" "- 2147483648 \<le> 2 ^ k - N" "2 ^ k - N \<le> 2147483647"
    using fields(2)
    by (auto simp: TokenPrisoner_new_def and_then_eq_Inr GetClosest_pos shift_left_1_Inr
        int32_eq_Inr k_def)
  have "TokenPrisoner_new (int i) N = Inr (g i)" for i
    using fields(2) ok
    by (simp add: TokenPrisoner_new_def GetClosest_pos k_def [symmetric] shift_left_1_def
        int32_Inr g_def)
  then have "emplace_all (map (\<lambda>i. TokenPrisoner_new (int i) N) [0..<nat N])
      = Inr (map g [0..<nat N])"
    by (intro emplace_all_map) simp
  then have list: "prisoners prison0 = map g [0..<nat N]"
    using ps prison0 by simp
  have le: "nat N \<le> 2 ^ k" unfolding k_def by (rule le_two_power_ceillog2)
  have lt: "2 ^ k < 2 * nat N"
    using fields(2) two_power_ceillog2_gt [of "nat N"] by (simp add: k_def)
  have e: "0 \<le> (2::int) ^ k - N" "(2::int) ^ k - N \<le> N"
  proof -
    have "int (nat N) \<le> int (2 ^ k)" using le by (simp only: of_nat_le_iff)
    then show "0 \<le> (2::int) ^ k - N" using fields(2) by simp
    have "int (2 ^ k) < int (2 * nat N)" using lt by (simp only: of_nat_less_iff)
    then show "(2::int) ^ k - N \<le> N" using fields(2) by simp
  qed
  have "tokens_in_prison prison0 = (\<Sum>i\<leftarrow>[0..<nat N]. if int i < 2 ^ k - N then 2 else (1::int))"
    by (simp add: tokens_in_prison_def list g_def comp_def)
  also have "\<dots> = int (nat N) + min (2 ^ k - N) (int (nat N))"
    using e(1) by (rule sum_two_or_one)
  also have "\<dots> = 2 ^ k"
    using e fields(2) by simp
  finally have "tokens_in_prison prison0 = 2 ^ k" .
  then show ?thesis
    using fields list by (simp add: g_def k_def)
qed

lemma three_tokens_new:
  "Prison_new TokenPrisoner_new 3 = Inr three_tokens \<and> tokens_in_prison three_tokens = 2 ^ 2"
  by code_simp

lemma token_invariant:
  assumes new: "Prison_new TokenPrisoner_new N = Inr prison0"
    and reached: "prison \<in> set (states TokenPrisoner_TakeAction draws prison0)"
  shows "\<exists>w. token_on_light N (prison_day_number prison) (prison_light prison) = Inr w
          \<and> tokens_in_prison prison + w = 2 ^ ceillog2 (nat N)"
proof -
  define I where "I = (\<lambda>p :: TokenPrisoner Prison.
      (\<forall>pr \<in> set (prisoners p). n_prisoners pr = N)
      \<and> (\<exists>w. token_on_light N (prison_day_number p) (prison_light p) = Inr w
            \<and> tokens_in_prison p + w = 2 ^ ceillog2 (nat N)))"
  note start = TokenPrisoner_Prison_new [OF new]
  have "token_on_light N (prison_day_number prison0) (prison_light prison0) = Inr 0"
    using start by (simp add: token_on_light_def IsOn_def)
  moreover have "\<forall>pr \<in> set (prisoners prison0). n_prisoners pr = N"
    using start by simp
  ultimately have "I prison0"
    using start by (simp add: I_def)
  moreover have "I p'" if inv: "I p" and day: "NextDay TokenPrisoner_TakeAction drawn p = Inr (claim, p')"
    for p drawn claim p'
  proof -
    have same: "\<forall>pr \<in> set (prisoners p). n_prisoners pr = N"
      using inv by (simp add: I_def)
    obtain w where w: "token_on_light N (prison_day_number p) (prison_light p) = Inr w"
      and sum: "tokens_in_prison p + w = 2 ^ ceillog2 (nat N)"
      using inv by (auto simp: I_def)
    show ?thesis
      using NextDay_tokens [OF day same w] sum unfolding I_def by auto
  qed
  ultimately have "\<forall>s \<in> set (states TokenPrisoner_TakeAction draws prison0). I s"
    by (rule states_invariant)
  then show ?thesis
    using reached unfolding I_def by blast
qed

text \<open>
  C1. The claim: the sum of the prisoners' tokens is the same after every visit as at
  construction, \<open>2 ^ k\<close>. A prisoner who turns the light on takes the token it offers
  out of its own tokens, so what every visit keeps is the sum of the prisoners' tokens
  plus the weight of the token on the light. At construction, and whenever the light is
  off, that is the sum of the prisoners' tokens.
\<close>

theorem tokens_conserved:
  assumes "1 \<le> N" and "Prison_new TokenPrisoner_new N = Inr prison0"
    and "prison \<in> set (states TokenPrisoner_TakeAction draws prison0)"
  shows "GetClosestNotSmallerPowerOf2 N = Inr (int (ceillog2 (nat N)))
    \<and> tokens_in_prison prison0 = 2 ^ ceillog2 (nat N)
    \<and> (\<exists>w. token_on_light N (prison_day_number prison) (prison_light prison) = Inr w
          \<and> tokens_in_prison prison + w = 2 ^ ceillog2 (nat N))
    \<and> (IsOff (prison_light prison) \<longrightarrow> tokens_in_prison prison = 2 ^ ceillog2 (nat N))"
proof -
  obtain w where w: "token_on_light N (prison_day_number prison) (prison_light prison) = Inr w"
    and sum: "tokens_in_prison prison + w = 2 ^ ceillog2 (nat N)"
    using token_invariant [OF assms(2,3)] by blast
  have "IsOff (prison_light prison) \<longrightarrow> w = 0"
    using w by (auto simp: token_on_light_def IsOff_def)
  then show ?thesis
    using assms(1) TokenPrisoner_Prison_new [OF assms(2)] w sum
    by (auto simp: GetClosest_pos)
qed

theorem tokens_conserved_witness:
  "(1::int) \<le> 2 \<and> Prison_new TokenPrisoner_new 2 = Inr two_tokens
    \<and> two_tokens_day1 \<in> set (states TokenPrisoner_TakeAction [0] two_tokens)
    \<and> GetClosestNotSmallerPowerOf2 2 = Inr 1
    \<and> tokens_in_prison two_tokens = 2
    \<and> token_on_light 2 (prison_day_number two_tokens_day1) (prison_light two_tokens_day1) = Inr 1
    \<and> tokens_in_prison two_tokens_day1 + 1 = 2
    \<and> IsOff (prison_light two_tokens)"
proof -
  have new: "Prison_new TokenPrisoner_new 2 = Inr two_tokens"
    by code_simp
  have run: "states TokenPrisoner_TakeAction [0] two_tokens = [two_tokens, two_tokens_day1]"
    by code_simp
  have reached: "two_tokens_day1 \<in> set (states TokenPrisoner_TakeAction [0] two_tokens)"
    unfolding run by simp
  have sum: "tokens_in_prison two_tokens_day1 = 1"
    by (simp add: tokens_in_prison_def two_tokens_day1_def)
  have off: "IsOff (prison_light two_tokens)"
    by (simp add: two_tokens_def IsOff_def IsOn_def)
  note conserved = tokens_conserved [OF _ new reached]
  have "GetClosestNotSmallerPowerOf2 2 = Inr 1" "tokens_in_prison two_tokens = 2"
    "token_on_light 2 (prison_day_number two_tokens_day1) (prison_light two_tokens_day1) = Inr 1"
    using conserved sum by auto
  then show ?thesis
    using new reached sum off by simp
qed

theorem tokens_not_conserved_counterexample:
  "Prison_new TokenPrisoner_new 2 = Inr two_tokens
    \<and> GetClosestNotSmallerPowerOf2 2 = Inr 1
    \<and> tokens_in_prison two_tokens = 2 ^ 1
    \<and> NextDay TokenPrisoner_TakeAction 0 two_tokens = Inr (claim_nothing, two_tokens_day1)
    \<and> states TokenPrisoner_TakeAction [0] two_tokens = [two_tokens, two_tokens_day1]
    \<and> tokens_in_prison two_tokens_day1 = 1
    \<and> tokens_in_prison two_tokens_day1 \<noteq> 2 ^ 1"
  by code_simp

text \<open>
  C10. With two prisoners or more, in every prison that a run of token prisoners goes
  through: if the light is off, the prisoners' tokens sum to \<open>2 ^ k\<close>; if the light is on,
  they sum to less, and what is missing is the weight \<open>2 ^ stage\<close> of the token on the
  light, for the stage of the prison's day.
\<close>

theorem tokens_and_light:
  assumes "2 \<le> N" and "Prison_new TokenPrisoner_new N = Inr prison0"
    and "prison \<in> set (states TokenPrisoner_TakeAction draws prison0)"
  shows "(IsOff (prison_light prison) \<longrightarrow> tokens_in_prison prison = 2 ^ ceillog2 (nat N))
    \<and> (IsOn (prison_light prison) \<longrightarrow>
         tokens_in_prison prison < 2 ^ ceillog2 (nat N)
         \<and> (\<exists>stage_index. GetStageIndex N (prison_day_number prison) = Inr stage_index
               \<and> 0 \<le> stage_index
               \<and> tokens_in_prison prison + 2 ^ nat stage_index = 2 ^ ceillog2 (nat N)))"
proof -
  obtain w where w: "token_on_light N (prison_day_number prison) (prison_light prison) = Inr w"
    and sum: "tokens_in_prison prison + w = 2 ^ ceillog2 (nat N)"
    using token_invariant [OF assms(2,3)] by blast
  show ?thesis
  proof (cases "IsOn (prison_light prison)")
    case False
    then have "w = 0" using w by (simp add: token_on_light_def)
    then show ?thesis using False sum by (simp add: IsOff_def)
  next
    case True
    then obtain stage_index where
      stage: "GetStageIndex N (prison_day_number prison) = Inr stage_index"
      and weight: "0 \<le> stage_index" "w = 2 ^ nat stage_index"
      using w by (auto simp: token_on_light_def and_then_eq_Inr shift_left_1_Inr)
    have "0 < w" using weight by simp
    then have "tokens_in_prison prison < 2 ^ ceillog2 (nat N)"
      using sum by linarith
    then show ?thesis
      using True stage weight sum by (auto simp: IsOff_def)
  qed
qed

theorem tokens_and_light_witness:
  "(2::int) \<le> 2 \<and> Prison_new TokenPrisoner_new 2 = Inr two_tokens
    \<and> two_tokens \<in> set (states TokenPrisoner_TakeAction [0] two_tokens)
    \<and> IsOff (prison_light two_tokens) \<and> tokens_in_prison two_tokens = 2
    \<and> two_tokens_day1 \<in> set (states TokenPrisoner_TakeAction [0] two_tokens)
    \<and> IsOn (prison_light two_tokens_day1) \<and> tokens_in_prison two_tokens_day1 < 2
    \<and> GetStageIndex 2 (prison_day_number two_tokens_day1) = Inr 0
    \<and> tokens_in_prison two_tokens_day1 + 2 ^ nat 0 = 2"
proof -
  have new: "Prison_new TokenPrisoner_new 2 = Inr two_tokens"
    by code_simp
  have run: "states TokenPrisoner_TakeAction [0] two_tokens = [two_tokens, two_tokens_day1]"
    by code_simp
  have reached: "two_tokens \<in> set (states TokenPrisoner_TakeAction [0] two_tokens)"
    "two_tokens_day1 \<in> set (states TokenPrisoner_TakeAction [0] two_tokens)"
    unfolding run by simp_all
  have lights: "IsOff (prison_light two_tokens)" "IsOn (prison_light two_tokens_day1)"
    by (simp_all add: two_tokens_def two_tokens_day1_def IsOff_def IsOn_def)
  have stage: "GetStageIndex 2 (prison_day_number two_tokens_day1) = Inr 0"
    by code_simp
  have "tokens_in_prison two_tokens = 2"
    using tokens_and_light [OF _ new reached(1)] lights(1) by simp
  moreover have "tokens_in_prison two_tokens_day1 < 2
      \<and> tokens_in_prison two_tokens_day1 + 2 ^ nat 0 = 2"
    using tokens_and_light [OF _ new reached(2)] lights(2) stage by simp
  ultimately show ?thesis
    using new reached lights stage by simp
qed

section \<open>The leader's count\<close>

lemma DedicatedCounterPrisoner_TakeAction_Inr:
  assumes "DedicatedCounterPrisoner_TakeAction self input = Inr (claim, self1, light1)"
  shows "prisoner_id self1 = prisoner_id self \<and> n_prisoners self1 = n_prisoners self
    \<and> (if prisoner_id self = 0 then
          has_turned_on_the_light self1 = has_turned_on_the_light self
          \<and> (if is_on (light input)
              then times_turned_off_the_light self1 = times_turned_off_the_light self + 1
                   \<and> \<not> is_on light1
              else times_turned_off_the_light self1 = times_turned_off_the_light self
                   \<and> \<not> is_on light1)
        else
          times_turned_off_the_light self1 = times_turned_off_the_light self
          \<and> (if \<not> has_turned_on_the_light self \<and> \<not> is_on (light input)
              then has_turned_on_the_light self1 \<and> is_on light1
              else has_turned_on_the_light self1 = has_turned_on_the_light self
                   \<and> is_on light1 = is_on (light input)))"
  using assms
  by (auto simp: DedicatedCounterPrisoner_TakeAction_def and_then_eq_Inr int32_eq_Inr
      IsOn_def IsOff_def TurnOn_def TurnOff_def split: if_splits)

lemma DedicatedCounterPrisoner_Prison_new:
  assumes "Prison_new DedicatedCounterPrisoner_new N = Inr prison0"
  shows "1 \<le> N \<and> prison_light prison0 = \<lparr>is_on = False\<rparr>
    \<and> prisoners prison0 =
        map (\<lambda>i. \<lparr>prisoner_id = int i, n_prisoners = N, has_turned_on_the_light = False,
                  times_turned_off_the_light = 0\<rparr>) [0..<nat N]"
proof -
  have "emplace_all (map (\<lambda>i. DedicatedCounterPrisoner_new (int i) N) [0..<nat N])
      = Inr (map (\<lambda>i. \<lparr>prisoner_id = int i, n_prisoners = N, has_turned_on_the_light = False,
                  times_turned_off_the_light = 0\<rparr>) [0..<nat N])"
    by (intro emplace_all_map) (simp add: DedicatedCounterPrisoner_new_def)
  then show ?thesis
    using assms Prison_new_fields [OF assms]
    by (auto simp: Prison_new_def split: if_splits)
qed

lemma sum_flags_bound:
  "xs \<noteq> [] \<Longrightarrow> \<not> P (xs ! 0) \<Longrightarrow>
     (\<Sum>x\<leftarrow>xs. if P x then 1 else (0::int)) \<le> int (length xs) - 1"
proof -
  have all: "(\<Sum>x\<leftarrow>ys. if P x then 1 else (0::int)) \<le> int (length ys)" for ys
    by (induction ys) auto
  assume "xs \<noteq> []" "\<not> P (xs ! 0)"
  then obtain y ys where "xs = y # ys" "\<not> P y" by (cases xs) auto
  then show ?thesis using all [of ys] by simp
qed

lemma counter_invariant:
  assumes new: "Prison_new DedicatedCounterPrisoner_new N = Inr prison0"
    and reached: "prison \<in> set (states DedicatedCounterPrisoner_TakeAction draws prison0)"
  shows "length (prisoners prison) = nat N
    \<and> \<not> has_turned_on_the_light (prisoners prison ! 0)
    \<and> times_turned_off_the_light (prisoners prison ! 0)
        + (if is_on (prison_light prison) then 1 else 0)
      = (\<Sum>pr\<leftarrow>prisoners prison. if has_turned_on_the_light pr then 1 else 0)"
proof -
  define I where "I = (\<lambda>p :: DedicatedCounterPrisoner Prison.
      length (prisoners p) = nat N
      \<and> (\<forall>i < nat N. prisoner_id (prisoners p ! i) = int i)
      \<and> \<not> has_turned_on_the_light (prisoners p ! 0)
      \<and> times_turned_off_the_light (prisoners p ! 0)
          + (if is_on (prison_light p) then 1 else 0)
        = (\<Sum>pr\<leftarrow>prisoners p. if has_turned_on_the_light pr then 1 else 0))"
  note start = DedicatedCounterPrisoner_Prison_new [OF new]
  have N: "1 \<le> N" using start by simp
  have "(\<Sum>pr\<leftarrow>prisoners prison0. if has_turned_on_the_light pr then 1 else (0::int)) = 0"
    using start by (simp add: comp_def)
  then have "I prison0"
    using start N by (simp add: I_def)
  moreover have "I p'"
    if inv: "I p" and day: "NextDay DedicatedCounterPrisoner_TakeAction drawn p = Inr (claim, p')"
    for p drawn claim p'
  proof -
    obtain prisoner light1 where
      drawn: "drawn < length (prisoners p)"
      and action: "DedicatedCounterPrisoner_TakeAction (prisoners p ! drawn)
              \<lparr>day_number = prison_day_number p, light = prison_light p\<rparr>
              = Inr (claim, prisoner, light1)"
      and p': "p' = p
                \<lparr>prisoners_have_been_in_the_room_indicators :=
                   (prisoners_have_been_in_the_room_indicators p)[drawn := True],
                 prisoners := (prisoners p)[drawn := prisoner],
                 prison_light := light1,
                 prison_day_number := prison_day_number p + 1\<rparr>"
      using day unfolding NextDay_Inr by blast
    have len: "length (prisoners p) = nat N"
      and ids: "\<forall>i < nat N. prisoner_id (prisoners p ! i) = int i"
      and leader: "\<not> has_turned_on_the_light (prisoners p ! 0)"
      and count: "times_turned_off_the_light (prisoners p ! 0)
          + (if is_on (prison_light p) then 1 else 0)
        = (\<Sum>pr\<leftarrow>prisoners p. if has_turned_on_the_light pr then 1 else 0)"
      using inv by (simp_all add: I_def)
    note effect = DedicatedCounterPrisoner_TakeAction_Inr [OF action]
    have id: "prisoner_id (prisoners p ! drawn) = int drawn"
      using ids drawn len by simp
    have flags: "(\<Sum>pr\<leftarrow>prisoners p'. if has_turned_on_the_light pr then 1 else (0::int))
        = (\<Sum>pr\<leftarrow>prisoners p. if has_turned_on_the_light pr then 1 else 0)
          + (if has_turned_on_the_light prisoner then 1 else 0)
          - (if has_turned_on_the_light (prisoners p ! drawn) then 1 else 0)"
      using drawn by (simp add: p' map_update sum_list_update_int)
    have id': "prisoner_id prisoner = int drawn"
      using effect id by simp
    have ids': "\<forall>i < nat N. prisoner_id (prisoners p' ! i) = int i"
      using ids id' len drawn by (auto simp: p' nth_list_update)
    have light: "is_on (light \<lparr>day_number = prison_day_number p, light = prison_light p\<rparr>)
        = is_on (prison_light p)"
      by simp
    show ?thesis
    proof (cases "drawn = 0")
      case True
      then show ?thesis
        using effect id leader count flags ids' len drawn
        unfolding light by (simp add: I_def p' split: if_splits)
    next
      case False
      then have "prisoners p' ! 0 = prisoners p ! 0"
        by (simp add: p')
      then show ?thesis
        using False effect id leader count flags ids' len drawn
        unfolding light by (auto simp: I_def p' split: if_splits)
    qed
  qed
  ultimately have "\<forall>s \<in> set (states DedicatedCounterPrisoner_TakeAction draws prison0). I s"
    by (rule states_invariant)
  then show ?thesis
    using reached unfolding I_def by blast
qed

lemma rises_all_true: "\<forall>b \<in> set bs. b \<Longrightarrow> rises bs = 0"
  by (induction bs rule: rises.induct) auto

lemma rises_sorted: "sorted bs \<Longrightarrow> rises bs \<le> 1"
proof (induction bs rule: rises.induct)
  case (1 a b bs)
  show ?case
  proof (cases "\<not> a \<and> b")
    case True
    then have "\<forall>x \<in> set (b # bs). x" using "1.prems" by auto
    then have "rises (b # bs) = 0" by (rule rises_all_true)
    then show ?thesis using True by simp
  next
    case False
    then show ?thesis using 1 by auto
  qed
qed simp_all

lemma states_sorted:
  fixes f :: "'p Prison \<Rightarrow> bool"
  assumes "\<And>p drawn claim p'. NextDay take_action drawn p = Inr (claim, p') \<Longrightarrow> f p \<le> f p'"
  shows "sorted (map f (states take_action draws prison))"
proof (induction draws arbitrary: prison)
  case Nil
  show ?case by simp
next
  case (Cons d ds)
  show ?case
  proof (cases "NextDay take_action d prison")
    case (Inl e)
    then show ?thesis by simp
  next
    case (Inr cp)
    obtain claim prison1 where cp: "cp = (claim, prison1)" by (cases cp)
    have first: "f prison \<le> f prison1" using assms Inr cp by simp
    have later: "\<forall>s \<in> set (states take_action ds prison1). f prison \<le> f s"
    proof (rule states_invariant)
      show "f prison \<le> f prison1" by (rule first)
    next
      fix p drawn claim p'
      assume "f prison \<le> f p" "NextDay take_action drawn p = Inr (claim, p')"
      then show "f prison \<le> f p'" using assms [of drawn p claim p'] by auto
    qed
    show ?thesis
      using Inr cp first later Cons.IH [of prison1] by simp
  qed
qed

lemma NextDay_has_turned_on:
  assumes "NextDay DedicatedCounterPrisoner_TakeAction drawn p = Inr (claim, p')"
  shows "has_turned_on_the_light (prisoners p ! i) \<le> has_turned_on_the_light (prisoners p' ! i)"
proof -
  obtain prisoner light1 where
    drawn: "drawn < length (prisoners p)"
    and action: "DedicatedCounterPrisoner_TakeAction (prisoners p ! drawn)
            \<lparr>day_number = prison_day_number p, light = prison_light p\<rparr>
            = Inr (claim, prisoner, light1)"
    and p': "prisoners p' = (prisoners p)[drawn := prisoner]"
    using assms unfolding NextDay_Inr by auto
  note effect = DedicatedCounterPrisoner_TakeAction_Inr [OF action]
  have "has_turned_on_the_light (prisoners p ! drawn) \<longrightarrow> has_turned_on_the_light prisoner"
    using effect by (auto split: if_splits)
  then show ?thesis
    using drawn by (cases "i = drawn") (simp_all add: p')
qed

text \<open>
  C8. In every run of dedicated-counter prisoners, \<open>N \<ge> 1\<close>: in every prison the run
  goes through, up to and with the one in which the claim is made, the leader's count is
  at most \<open>N - 1\<close>; and for every prisoner, the flag that it has turned the light on goes
  from false to true at most once in the run, since no visit resets it.
\<close>

theorem counter_never_exceeds:
  assumes "1 \<le> N" and "Prison_new DedicatedCounterPrisoner_new N = Inr prison0"
  shows "(\<forall>prison \<in> set (states DedicatedCounterPrisoner_TakeAction draws prison0).
            times_turned_off_the_light (prisoners prison ! 0) \<le> N - 1)
    \<and> (\<forall>i < nat N.
          sorted (map (\<lambda>prison. has_turned_on_the_light (prisoners prison ! i))
                   (states DedicatedCounterPrisoner_TakeAction draws prison0))
          \<and> rises (map (\<lambda>prison. has_turned_on_the_light (prisoners prison ! i))
                   (states DedicatedCounterPrisoner_TakeAction draws prison0)) \<le> 1)"
proof (intro conjI ballI allI impI)
  fix prison
  assume reached: "prison \<in> set (states DedicatedCounterPrisoner_TakeAction draws prison0)"
  note inv = counter_invariant [OF assms(2) reached]
  have "prisoners prison \<noteq> []" using inv assms(1) by auto
  then have "(\<Sum>pr\<leftarrow>prisoners prison. if has_turned_on_the_light pr then 1 else (0::int))
      \<le> int (length (prisoners prison)) - 1"
    using inv by (intro sum_flags_bound) simp_all
  then show "times_turned_off_the_light (prisoners prison ! 0) \<le> N - 1"
    using inv assms(1) by (auto split: if_splits)
next
  fix i
  show sorted: "sorted (map (\<lambda>prison. has_turned_on_the_light (prisoners prison ! i))
                   (states DedicatedCounterPrisoner_TakeAction draws prison0))"
    by (rule states_sorted) (rule NextDay_has_turned_on)
  show "rises (map (\<lambda>prison. has_turned_on_the_light (prisoners prison ! i))
                   (states DedicatedCounterPrisoner_TakeAction draws prison0)) \<le> 1"
    using sorted by (rule rises_sorted)
qed

theorem counter_never_exceeds_witness:
  "(1::int) \<le> 2 \<and> Prison_new DedicatedCounterPrisoner_new 2 = Inr two_counters
    \<and> states DedicatedCounterPrisoner_TakeAction [1, 0] two_counters
        = [two_counters, two_counters_day1, two_counters_day2]
    \<and> times_turned_off_the_light (prisoners two_counters_day2 ! 0) = 1
    \<and> times_turned_off_the_light (prisoners two_counters_day2 ! 0) \<le> 2 - 1
    \<and> map (\<lambda>prison. has_turned_on_the_light (prisoners prison ! 1))
         (states DedicatedCounterPrisoner_TakeAction [1, 0] two_counters) = [False, True, True]
    \<and> rises (map (\<lambda>prison. has_turned_on_the_light (prisoners prison ! 1))
         (states DedicatedCounterPrisoner_TakeAction [1, 0] two_counters)) \<le> 1"
proof -
  have new: "Prison_new DedicatedCounterPrisoner_new 2 = Inr two_counters"
    by code_simp
  have run: "states DedicatedCounterPrisoner_TakeAction [1, 0] two_counters
        = [two_counters, two_counters_day1, two_counters_day2]"
    by code_simp
  have flags: "map (\<lambda>prison. has_turned_on_the_light (prisoners prison ! 1))
      [two_counters, two_counters_day1, two_counters_day2] = [False, True, True]"
    by (simp add: two_counters_def two_counters_day1_def two_counters_day2_def)
  have count: "times_turned_off_the_light (prisoners two_counters_day2 ! 0) = 1"
    by (simp add: two_counters_day2_def)
  note bounded = counter_never_exceeds [OF _ new, of "[1, 0]"]
  have "times_turned_off_the_light (prisoners two_counters_day2 ! 0) \<le> 2 - 1"
    using bounded unfolding run by simp
  moreover have "rises (map (\<lambda>prison. has_turned_on_the_light (prisoners prison ! 1))
         (states DedicatedCounterPrisoner_TakeAction [1, 0] two_counters)) \<le> 1"
    using bounded by simp
  ultimately show ?thesis
    using new run flags count by simp
qed

end
